theory Spec2Isabelle
  imports Complex_Main "HOL-Library.Word" "HOL-Library.Monad_Syntax"
begin

unbundle bit_operations_syntax

section \<open>The zone manager of sceneZoneSpaceManager.cpp\<close>

text \<open>
  The manager of \<^verbatim>\<open>Engine/source/scene/zones/sceneZoneSpaceManager.cpp\<close> as
  state-passing functions. Every member function takes the manager (with the memory
  its pointers refer to) and returns the updated manager in the option monad:
  \<open>None\<close> is an \<^verbatim>\<open>AssertFatal\<close> that fired or an access outside a vector.

  \<^item> U32 counters and zone IDs are \<open>nat\<close>; no function of the file subtracts
    without an assertion guarding it, and a count only grows with the number of
    pointers held in \<^verbatim>\<open>mZoneLists\<close>.
  \<^item> \<^verbatim>\<open>SceneObject*\<close> and \<^verbatim>\<open>ZoneObjectList*\<close> are addresses (\<open>nat\<close>); a pointer that
    can be \<^verbatim>\<open>NULL\<close> is an \<open>option\<close>.
  \<^item> F32 coordinates are carried as rationals; the file computes with them only
    to build the query box of \<^verbatim>\<open>findZone\<close>.
\<close>

subsection \<open>Data\<close>

type_synonym U32 = nat
type_synonym obj_ptr = nat
type_synonym list_ptr = nat
type_synonym F32 = rat

record Point3F =
  ptX :: F32
  ptY :: F32
  ptZ :: F32

record Box3F =
  minExtents :: Point3F
  maxExtents :: Point3F

text \<open>
  A scene object with the members the manager reads and writes. \<open>isGlobalBounds\<close>
  and \<open>getWorldBox\<close> are what the methods of these names return, \<open>mTypeMask\<close> what
  \<^verbatim>\<open>getTypeMask()\<close> returns, and \<open>hasContainer\<close> says that \<^verbatim>\<open>getContainer()\<close> is not
  \<^verbatim>\<open>NULL\<close>. \<open>isSceneZoneSpace\<close> and \<open>isSceneRootZone\<close> are the dynamic type: whether
  \<^verbatim>\<open>dynamic_cast< SceneZoneSpace* >\<close>, respectively \<^verbatim>\<open>dynamic_cast< SceneRootZone* >\<close>
  and \<^verbatim>\<open>isRootZone()\<close>, succeed. The last three members are those of a
  \<^verbatim>\<open>SceneZoneSpace\<close>; \<open>mManagerSet\<close> says that its \<^verbatim>\<open>mManager\<close> points to the manager.
\<close>

record SceneObject =
  mZoneListHandle :: U32
  mNumCurrZones :: U32
  mZoneRefDirty :: bool
  mTypeMask :: "32 word"
  isGlobalBounds :: bool
  getWorldBox :: Box3F
  hasContainer :: bool
  isSceneZoneSpace :: bool
  isSceneRootZone :: bool
  mNumZones :: U32
  mZoneRangeStart :: U32
  mManagerSet :: bool

record ZoneObjectList =
  mManager :: "obj_ptr option"
  getObjects :: "obj_ptr list"

record TempZoneRecord =
  recSpace :: obj_ptr
  recStartZone :: U32
  recNumZones :: U32

text \<open>
  Modelled from the spec: the membership table \<^verbatim>\<open>mObjectZoneLists\<close> is declared
  outside this file. It maps an opaque handle (zero is "not registered") to a small
  list of zone IDs, and supports: allocate a list for given values, replace a list's
  contents, free a list, query the values of a handle, test whether a handle's list
  holds an ID, and replace one ID by another in a handle's list.
\<close>

type_synonym ObjectZoneLists = "(U32 \<times> U32 list) list"

definition allocList :: "U32 \<Rightarrow> U32 list \<Rightarrow> ObjectZoneLists \<Rightarrow> U32 \<times> ObjectZoneLists" where
  "allocList n zoneList tbl =
     (let h = Suc (fold max (map fst tbl) 0) in (h, (h, take n zoneList) # tbl))"

definition freeList :: "U32 \<Rightarrow> ObjectZoneLists \<Rightarrow> ObjectZoneLists" where
  "freeList h tbl = filter (\<lambda>e. fst e \<noteq> h) tbl"

definition reallocList :: "U32 \<Rightarrow> U32 \<Rightarrow> U32 list \<Rightarrow> ObjectZoneLists \<Rightarrow> ObjectZoneLists" where
  "reallocList h n zoneList tbl = (h, take n zoneList) # filter (\<lambda>e. fst e \<noteq> h) tbl"

definition getValues :: "ObjectZoneLists \<Rightarrow> U32 \<Rightarrow> U32 list option" where
  "getValues tbl h = map_of tbl h"

definition containsBinItem :: "ObjectZoneLists \<Rightarrow> U32 \<Rightarrow> U32 \<Rightarrow> bool" where
  "containsBinItem tbl h zoneId = (case map_of tbl h of None \<Rightarrow> False | Some vs \<Rightarrow> zoneId \<in> set vs)"

definition replaceListBin :: "U32 \<Rightarrow> U32 \<Rightarrow> U32 \<Rightarrow> ObjectZoneLists \<Rightarrow> ObjectZoneLists" where
  "replaceListBin h oldId newId tbl =
     map (\<lambda>e. if fst e = h then (fst e, map (\<lambda>v. if v = oldId then newId else v) (snd e)) else e) tbl"

text \<open>
  The manager. \<open>heapObjects\<close> and \<open>heapLists\<close> are the memory behind its pointers:
  the scene objects by address, and the \<^verbatim>\<open>ZoneObjectList\<close>s it allocated with
  \<^verbatim>\<open>new\<close>, the address of a list being its index.
\<close>

record SceneZoneSpaceManager =
  mRootZone :: obj_ptr
  mNumTotalAllocatedZones :: U32
  mNumActiveZones :: U32
  mDirtyArea :: Box3F
  mZoneSpaces :: "obj_ptr list"
  mZoneLists :: "list_ptr option list"
  mZoneListPool :: "list_ptr list"
  mZoneSpacesQueryList :: "obj_ptr list"
  mDirtyObjects :: "obj_ptr list"
  mDirtyZoneSpaces :: "obj_ptr list"
  mObjectZoneLists :: ObjectZoneLists
  mTempObjectZones :: "TempZoneRecord list"
  heapObjects :: "obj_ptr \<Rightarrow> SceneObject"
  heapLists :: "ZoneObjectList list"

text \<open>
  What the file uses and does not define: the constants of the headers, the box
  operations of the math library, the scene container's query and the geometric
  tests of the zone spaces. \<open>getOverlappingZones\<close> returns the outside-overlap
  flag and the zone IDs it wrote.
\<close>

record Env =
  MaxObjectZones :: U32
  ZoneObjectType :: "32 word"
  OUTDOOR_OBJECT_TYPEMASK :: "32 word"
  Box3F_Invalid :: Box3F
  Box3F_intersect :: "Box3F \<Rightarrow> Box3F \<Rightarrow> Box3F"
  findObjectList :: "Box3F \<Rightarrow> 32 word \<Rightarrow> obj_ptr list"
  getPointZone :: "obj_ptr \<Rightarrow> Point3F \<Rightarrow> U32"
  getOverlappingZonesBox :: "obj_ptr \<Rightarrow> Box3F \<Rightarrow> bool \<times> U32 list"
  getOverlappingZones :: "obj_ptr \<Rightarrow> obj_ptr \<Rightarrow> bool \<times> U32 list"

text \<open>
  Modelled from the spec: the enumeration of zone IDs is in the manager's header,
  which is not under src/. Zone 0 is reserved for the root (outdoor) zone and
  \<^verbatim>\<open>InvalidZoneId\<close> is a sentinel, the U32 of all ones.
\<close>

definition RootZoneId :: U32 where
  "RootZoneId = 0"

definition InvalidZoneId :: U32 where
  "InvalidZoneId = 4294967295"

definition AssertFatal :: "bool \<Rightarrow> unit option" where
  "AssertFatal b = (if b then Some () else None)"

definition getRootZone :: "SceneZoneSpaceManager \<Rightarrow> obj_ptr" where
  "getRootZone s = mRootZone s"

definition objAt :: "SceneZoneSpaceManager \<Rightarrow> obj_ptr \<Rightarrow> SceneObject" where
  "objAt s p = heapObjects s p"

definition updObj :: "obj_ptr \<Rightarrow> (SceneObject \<Rightarrow> SceneObject) \<Rightarrow> SceneZoneSpaceManager \<Rightarrow> SceneZoneSpaceManager" where
  "updObj p f s = s\<lparr>heapObjects := (heapObjects s)(p := f (heapObjects s p))\<rparr>"

subsection \<open>The constructor\<close>

definition newSceneZoneSpaceManager :: "Env \<Rightarrow> (obj_ptr \<Rightarrow> SceneObject) \<Rightarrow> obj_ptr \<Rightarrow> SceneZoneSpaceManager" where
  "newSceneZoneSpaceManager env heap rootZone =
     \<lparr>mRootZone = rootZone, mNumTotalAllocatedZones = 0, mNumActiveZones = 0,
      mDirtyArea = Box3F_Invalid env, mZoneSpaces = [], mZoneLists = [],
      mZoneListPool = [], mZoneSpacesQueryList = [], mDirtyObjects = [],
      mDirtyZoneSpaces = [], mObjectZoneLists = [], mTempObjectZones = [],
      heapObjects = heap, heapLists = []\<rparr>"

subsection \<open>Queries: findZone and findZones\<close>

definition queryZoneSpaces :: "Env \<Rightarrow> Box3F \<Rightarrow> SceneZoneSpaceManager \<Rightarrow> SceneZoneSpaceManager" where
  "queryZoneSpaces env area s =
     s\<lparr>mZoneSpacesQueryList := findObjectList env area (ZoneObjectType env)\<rparr>"

text \<open>The loop of \<^verbatim>\<open>findZone\<close> over the query list: the first zone space that has the point.\<close>

fun findZoneLoop :: "Env \<Rightarrow> SceneZoneSpaceManager \<Rightarrow> Point3F \<Rightarrow> obj_ptr list \<Rightarrow> (obj_ptr \<times> U32) option option" where
  "findZoneLoop env s p [] = Some None"
| "findZoneLoop env s p (q # qs) =
     (if \<not> isSceneZoneSpace (objAt s q) then findZoneLoop env s p qs
      else do {
        AssertFatal (q \<noteq> getRootZone s);
        let inZone = getPointZone env q p;
        if inZone \<noteq> InvalidZoneId then Some (Some (q, inZone))
        else findZoneLoop env s p qs
      })"

text \<open>The box of \<^verbatim>\<open>findZone\<close> that tightly fits around the point.\<close>

definition queryBox :: "Point3F \<Rightarrow> Box3F" where
  "queryBox p = \<lparr>minExtents = \<lparr>ptX = ptX p - 1/10, ptY = ptY p - 1/10, ptZ = ptZ p - 1/10\<rparr>,
                maxExtents = \<lparr>ptX = ptX p + 1/10, ptY = ptY p + 1/10, ptZ = ptZ p + 1/10\<rparr>\<rparr>"

definition findZone :: "Env \<Rightarrow> SceneZoneSpaceManager \<Rightarrow> Point3F \<Rightarrow> (SceneZoneSpaceManager \<times> obj_ptr \<times> U32) option" where
  "findZone env s p = do {
     AssertFatal (mNumActiveZones s \<ge> 1);
     if mNumActiveZones s = 1 then Some (s, getRootZone s, RootZoneId)
     else do {
       let s1 = queryZoneSpaces env (queryBox p) s;
       r \<leftarrow> findZoneLoop env s1 p (mZoneSpacesQueryList s1);
       (case r of
          Some (owner, zone) \<Rightarrow> Some (s1, owner, zone)
        | None \<Rightarrow> Some (s1, getRootZone s1, RootZoneId))
     }
   }"

text \<open>The inner loop of \<^verbatim>\<open>findZones\<close>: push the zones, counting them.\<close>

fun pushZones :: "U32 list \<Rightarrow> U32 list \<times> U32 \<Rightarrow> U32 list \<times> U32" where
  "pushZones [] (outZones, numTotalZones) = (outZones, numTotalZones)"
| "pushZones (zn # zones) (outZones, numTotalZones) =
     pushZones zones (outZones @ [zn], numTotalZones + 1)"

fun findZonesLoop :: "Env \<Rightarrow> SceneZoneSpaceManager \<Rightarrow> Box3F \<Rightarrow> obj_ptr list \<Rightarrow> bool \<times> U32 list \<times> U32 \<Rightarrow> (bool \<times> U32 list \<times> U32) option" where
  "findZonesLoop env s area [] acc = Some acc"
| "findZonesLoop env s area (q # qs) (outsideIncluded, outZones, numTotalZones) =
     (if \<not> isSceneZoneSpace (objAt s q) then findZonesLoop env s area qs (outsideIncluded, outZones, numTotalZones)
      else do {
        AssertFatal (q \<noteq> getRootZone s);
        let (outside, zones) = getOverlappingZonesBox env q area;
        let (outZones', numTotalZones') = pushZones zones (outZones, numTotalZones);
        findZonesLoop env s area qs (outsideIncluded \<or> outside, outZones', numTotalZones')
      })"

definition findZones :: "Env \<Rightarrow> SceneZoneSpaceManager \<Rightarrow> Box3F \<Rightarrow> U32 list \<Rightarrow> (SceneZoneSpaceManager \<times> U32 \<times> U32 list) option" where
  "findZones env s area outZones = do {
     let s1 = queryZoneSpaces env area s;
     (outsideIncluded, outZones1, numTotalZones) \<leftarrow>
        findZonesLoop env s1 area (mZoneSpacesQueryList s1) (False, outZones, 0);
     if outsideIncluded \<or> numTotalZones = 0
     then Some (s1, numTotalZones + 1, outZones1 @ [RootZoneId])
     else Some (s1, numTotalZones, outZones1)
   }"

subsection \<open>Vectors, the zone list pool and the zone owners' notifications\<close>

text \<open>
  Reading a \<^verbatim>\<open>Vector\<close> at an index: outside the vector there is no element to read.
\<close>

definition vectorAt :: "'a list \<Rightarrow> nat \<Rightarrow> 'a option" where
  "vectorAt xs i = (if i < length xs then Some (xs ! i) else None)"

text \<open>
  Modelled from the spec: the accessors \<^verbatim>\<open>getNumZones\<close>, \<^verbatim>\<open>getZoneRangeStart\<close> and
  \<^verbatim>\<open>getZoneRange\<close> are defined in headers that are not under src/. They give the
  number of allocated zone IDs, and the start and the number of zones of the range
  \<open>[rangeStart, rangeStart + numZones)\<close> that a zone space owns.
\<close>

definition getNumZones :: "SceneZoneSpaceManager \<Rightarrow> U32" where
  "getNumZones s = mNumTotalAllocatedZones s"

definition getZoneRangeStart :: "SceneObject \<Rightarrow> U32" where
  "getZoneRangeStart sp = mZoneRangeStart sp"

definition getZoneRange :: "SceneObject \<Rightarrow> U32" where
  "getZoneRange sp = mNumZones sp"

text \<open>
  \<open>derefList s l\<close> follows a \<^verbatim>\<open>ZoneObjectList*\<close>: \<open>None\<close> for \<^verbatim>\<open>NULL\<close> and for an
  address that was never allocated.
\<close>

definition derefList :: "SceneZoneSpaceManager \<Rightarrow> list_ptr option \<Rightarrow> ZoneObjectList option" where
  "derefList s l = (case l of None \<Rightarrow> None | Some a \<Rightarrow> vectorAt (heapLists s) a)"

definition allocZoneList :: "obj_ptr \<Rightarrow> SceneZoneSpaceManager \<Rightarrow> (list_ptr \<times> SceneZoneSpaceManager) option" where
  "allocZoneList sp s =
     (if mZoneListPool s \<noteq> [] then do {
        let ret = last (mZoneListPool s);
        l \<leftarrow> vectorAt (heapLists s) ret;
        Some (ret, s\<lparr>heapLists := (heapLists s)[ret := l\<lparr>mManager := Some sp\<rparr>],
                      mZoneListPool := butlast (mZoneListPool s)\<rparr>)
      }
      else Some (length (heapLists s),
                 s\<lparr>heapLists := heapLists s @ [\<lparr>mManager = Some sp, getObjects = []\<rparr>]\<rparr>))"

definition freeZoneList :: "list_ptr option \<Rightarrow> SceneZoneSpaceManager \<Rightarrow> SceneZoneSpaceManager option" where
  "freeZoneList list s = do {
     l \<leftarrow> derefList s list;
     let a = the list;
     Some (s\<lparr>heapLists := (heapLists s)[a := l\<lparr>mManager := None, getObjects := []\<rparr>],
             mZoneListPool := mZoneListPool s @ [a]\<rparr>)
   }"

text \<open>
  Modelled from the spec: \<^verbatim>\<open>getZoneOwner\<close> is defined in the manager's header, which
  is not under src/. A zone is owned by exactly one zone space, and the
  \<^verbatim>\<open>ZoneObjectList\<close> of a zone holds the back-reference to its owner. The result
  can be \<^verbatim>\<open>NULL\<close> (the inner option).
\<close>

definition getZoneOwner :: "SceneZoneSpaceManager \<Rightarrow> U32 \<Rightarrow> obj_ptr option option" where
  "getZoneOwner s zoneId = do {
     list \<leftarrow> vectorAt (mZoneLists s) zoneId;
     l \<leftarrow> derefList s list;
     Some (mManager l)
   }"

text \<open>
  Modelled from the spec: \<^verbatim>\<open>SceneZoneSpace::_onZoneAddObject\<close> and
  \<^verbatim>\<open>SceneZoneSpace::_onZoneRemoveObject\<close> are not under src/. The owner is told that
  the object was added to the given zones, respectively that it left; the
  \<^verbatim>\<open>ZoneObjectList\<close> of a zone holds the objects resident in the zone, and nothing in
  the manager's file adds an object to a list or takes one object out. So the first
  appends the object to the list of each given zone, and the second takes it out of
  every list that refers back to the owner.
\<close>

fun onZoneAddObject :: "obj_ptr \<Rightarrow> obj_ptr \<Rightarrow> U32 list \<Rightarrow> SceneZoneSpaceManager \<Rightarrow> SceneZoneSpaceManager option" where
  "onZoneAddObject owner object [] s = Some s"
| "onZoneAddObject owner object (zoneId # zoneIds) s = do {
     list \<leftarrow> vectorAt (mZoneLists s) zoneId;
     l \<leftarrow> derefList s list;
     onZoneAddObject owner object zoneIds
       (s\<lparr>heapLists := (heapLists s)[the list := l\<lparr>getObjects := getObjects l @ [object]\<rparr>]\<rparr>)
   }"

definition onZoneRemoveObject :: "obj_ptr \<Rightarrow> obj_ptr \<Rightarrow> SceneZoneSpaceManager \<Rightarrow> SceneZoneSpaceManager" where
  "onZoneRemoveObject owner object s =
     s\<lparr>heapLists := map (\<lambda>l. if mManager l = Some owner
                               then l\<lparr>getObjects := removeAll object (getObjects l)\<rparr> else l)
                         (heapLists s)\<rparr>"

subsection \<open>The dirty lists\<close>

definition notifyObjectChanged :: "Env \<Rightarrow> obj_ptr \<Rightarrow> SceneZoneSpaceManager \<Rightarrow> SceneZoneSpaceManager option" where
  "notifyObjectChanged env object s = do {
     AssertFatal (object \<noteq> getRootZone s);
     if mZoneRefDirty (objAt s object) then Some s
     else do {
       s1 \<leftarrow> (if mTypeMask (objAt s object) AND ZoneObjectType env \<noteq> 0
              then do {
                AssertFatal (isSceneZoneSpace (objAt s object));
                Some (s\<lparr>mDirtyZoneSpaces := mDirtyZoneSpaces s @ [object]\<rparr>)
              }
              else Some (s\<lparr>mDirtyObjects := mDirtyObjects s @ [object]\<rparr>));
       Some (updObj object (\<lambda>ob. ob\<lparr>mZoneRefDirty := True\<rparr>) s1)
     }
   }"

definition registerObject :: "Env \<Rightarrow> obj_ptr \<Rightarrow> SceneZoneSpaceManager \<Rightarrow> SceneZoneSpaceManager option" where
  "registerObject env object s = notifyObjectChanged env object s"

subsection \<open>Clearing a zone's list\<close>

text \<open>
  The loop of \<^verbatim>\<open>_clearZoneList\<close> runs over the objects the list held when the loop
  started; \<open>zoneSpace\<close> is the owner found before the loop, \<^verbatim>\<open>NULL\<close> or not.
\<close>

fun clearZoneListLoop :: "obj_ptr option \<Rightarrow> obj_ptr list \<Rightarrow> SceneZoneSpaceManager \<Rightarrow> SceneZoneSpaceManager option" where
  "clearZoneListLoop zoneSpace [] s = Some s"
| "clearZoneListLoop zoneSpace (object # objects) s = do {
     AssertFatal (mNumCurrZones (objAt s object) > 0);
     let s1 = updObj object (\<lambda>ob. ob\<lparr>mNumCurrZones := mNumCurrZones ob - 1\<rparr>) s;
     let s2 = (if mNumCurrZones (objAt s1 object) = 0
               then updObj object (\<lambda>ob. ob\<lparr>mZoneRefDirty := True\<rparr>) s1 else s1);
     owner \<leftarrow> zoneSpace;
     clearZoneListLoop zoneSpace objects (onZoneRemoveObject owner object s2)
   }"

definition clearZoneList :: "U32 \<Rightarrow> SceneZoneSpaceManager \<Rightarrow> SceneZoneSpaceManager option" where
  "clearZoneList zoneId s = do {
     AssertFatal (zoneId < getNumZones s);
     list \<leftarrow> vectorAt (mZoneLists s) zoneId;
     zoneSpace \<leftarrow> getZoneOwner s zoneId;
     l \<leftarrow> derefList s list;
     clearZoneListLoop zoneSpace (getObjects l) s
   }"

subsection \<open>The zone ID allocator: registration, compaction, unregistration\<close>

text \<open>Writing a \<^verbatim>\<open>Vector\<close> at an index, which has to be inside the vector.\<close>

definition vectorSet :: "'a list \<Rightarrow> nat \<Rightarrow> 'a \<Rightarrow> 'a list option" where
  "vectorSet xs i v = (if i < length xs then Some (xs[i := v]) else None)"

text \<open>\<^verbatim>\<open>Vector::erase( index )\<close>: the element at the index is taken out.\<close>

definition vectorErase :: "'a list \<Rightarrow> nat \<Rightarrow> 'a list" where
  "vectorErase xs i = take i xs @ drop (Suc i) xs"

fun zoneSpaceIndexLoop :: "obj_ptr list \<Rightarrow> obj_ptr \<Rightarrow> nat \<Rightarrow> int" where
  "zoneSpaceIndexLoop [] object i = - 1"
| "zoneSpaceIndexLoop (sp # sps) object i =
     (if sp = object then int i else zoneSpaceIndexLoop sps object (i + 1))"

definition getZoneSpaceIndex :: "SceneZoneSpaceManager \<Rightarrow> obj_ptr \<Rightarrow> int" where
  "getZoneSpaceIndex s object = zoneSpaceIndexLoop (mZoneSpaces s) object 0"

text \<open>
  The innermost loop of \<^verbatim>\<open>_compactZonesCheck\<close>: for every object of the list,
  \<^verbatim>\<open>replaceListBin( obj->mZoneListHandle, oldZoneId, newZoneId )\<close>.
\<close>

fun replaceBins :: "obj_ptr list \<Rightarrow> U32 \<Rightarrow> U32 \<Rightarrow> SceneZoneSpaceManager \<Rightarrow> SceneZoneSpaceManager" where
  "replaceBins [] oldZoneId newZoneId s = s"
| "replaceBins (ob # obs) oldZoneId newZoneId s =
     replaceBins obs oldZoneId newZoneId
       (s\<lparr>mObjectZoneLists :=
            replaceListBin (mZoneListHandle (objAt s ob)) oldZoneId newZoneId (mObjectZoneLists s)\<rparr>)"

text \<open>
  The loop over the zones \<open>n\<close> of one zone space. The list is relocated from
  \<^verbatim>\<open>mZoneLists[ oldZoneId ]\<close> into \<^verbatim>\<open>newZoneLists[ newZoneId ]\<close>; the entries that are
  then updated are those of the objects of \<^verbatim>\<open>mZoneLists[ newZoneId ]\<close>, as the
  source has it.
\<close>

fun compactZoneLoop :: "U32 list \<Rightarrow> U32 \<Rightarrow> U32 \<Rightarrow> list_ptr option list \<times> SceneZoneSpaceManager \<Rightarrow> (list_ptr option list \<times> SceneZoneSpaceManager) option" where
  "compactZoneLoop [] oldZoneRangeStart newZoneRangeStart (newZoneLists, s) = Some (newZoneLists, s)"
| "compactZoneLoop (n # ns) oldZoneRangeStart newZoneRangeStart (newZoneLists, s) = do {
     let newZoneId = newZoneRangeStart + n;
     let oldZoneId = oldZoneRangeStart + n;
     moved \<leftarrow> vectorAt (mZoneLists s) oldZoneId;
     newZoneLists1 \<leftarrow> vectorSet newZoneLists newZoneId moved;
     atNew \<leftarrow> vectorAt (mZoneLists s) newZoneId;
     (case atNew of
        None \<Rightarrow> compactZoneLoop ns oldZoneRangeStart newZoneRangeStart (newZoneLists1, s)
      | Some a \<Rightarrow> do {
          l \<leftarrow> vectorAt (heapLists s) a;
          compactZoneLoop ns oldZoneRangeStart newZoneRangeStart
            (newZoneLists1, replaceBins (getObjects l) oldZoneId newZoneId s)
        })
   }"

text \<open>The loop over \<^verbatim>\<open>mZoneSpaces\<close>, in its order.\<close>

fun compactSpaces :: "obj_ptr list \<Rightarrow> U32 \<times> list_ptr option list \<times> SceneZoneSpaceManager \<Rightarrow> (U32 \<times> list_ptr option list \<times> SceneZoneSpaceManager) option" where
  "compactSpaces [] acc = Some acc"
| "compactSpaces (sp # sps) (nextZoneId, newZoneLists, s) = do {
     let oldZoneRangeStart = getZoneRangeStart (objAt s sp);
     let newZoneRangeStart = nextZoneId;
     let numZones = getZoneRange (objAt s sp);
     let s1 = updObj sp (\<lambda>ob. ob\<lparr>mZoneRangeStart := newZoneRangeStart\<rparr>) s;
     (newZoneLists1, s2) \<leftarrow>
        compactZoneLoop [0..<numZones] oldZoneRangeStart newZoneRangeStart (newZoneLists, s1);
     compactSpaces sps (nextZoneId + numZones, newZoneLists1, s2)
   }"

text \<open>
  What \<^verbatim>\<open>_compactZonesCheck\<close> does when it does not return early. The entries of the
  new vector after \<^verbatim>\<open>setSize\<close>, which the walk is to overwrite, are \<^verbatim>\<open>NULL\<close> here.
\<close>

definition compactZones :: "SceneZoneSpaceManager \<Rightarrow> SceneZoneSpaceManager option" where
  "compactZones s = do {
     (nextZoneId, newZoneLists, s1) \<leftarrow>
        compactSpaces (mZoneSpaces s) (0, replicate (mNumActiveZones s) None, s);
     let s2 = s1\<lparr>mNumTotalAllocatedZones := nextZoneId, mZoneLists := newZoneLists\<rparr>;
     AssertFatal (mNumTotalAllocatedZones s2 = mNumActiveZones s2);
     Some s2
   }"

definition compactZonesCheck :: "SceneZoneSpaceManager \<Rightarrow> SceneZoneSpaceManager option" where
  "compactZonesCheck s =
     (if mNumActiveZones s > mNumTotalAllocatedZones s div 2 then Some s else compactZones s)"

fun allocZoneLists :: "U32 list \<Rightarrow> obj_ptr \<Rightarrow> SceneZoneSpaceManager \<Rightarrow> SceneZoneSpaceManager option" where
  "allocZoneLists [] object s = Some s"
| "allocZoneLists (i # is) object s = do {
     (ret, s1) \<leftarrow> allocZoneList object s;
     zl \<leftarrow> vectorSet (mZoneLists s1) i (Some ret);
     allocZoneLists is object (s1\<lparr>mZoneLists := zl\<rparr>)
   }"

definition registerZones :: "Env \<Rightarrow> obj_ptr \<Rightarrow> U32 \<Rightarrow> SceneZoneSpaceManager \<Rightarrow> SceneZoneSpaceManager option" where
  "registerZones env object numZones s = do {
     AssertFatal (getZoneSpaceIndex s object = - 1);
     s1 \<leftarrow> compactZonesCheck s;
     let zoneRangeStart = mNumTotalAllocatedZones s1;
     let s2 = s1\<lparr>mNumTotalAllocatedZones := mNumTotalAllocatedZones s1 + numZones,
                 mNumActiveZones := mNumActiveZones s1 + numZones\<rparr>;
     let s3 = updObj object (\<lambda>ob. ob\<lparr>mNumZones := numZones, mZoneRangeStart := zoneRangeStart\<rparr>) s2;
     let s4 = s3\<lparr>mZoneLists := mZoneLists s3 @ replicate numZones None\<rparr>;
     s5 \<leftarrow> allocZoneLists [zoneRangeStart..<mNumTotalAllocatedZones s4] object s4;
     let s6 = s5\<lparr>mZoneSpaces := mZoneSpaces s5 @ [object]\<rparr>;
     let s7 = updObj object (\<lambda>ob. ob\<lparr>mManagerSet := True,
                                      mTypeMask := mTypeMask ob OR ZoneObjectType env\<rparr>) s6;
     if \<not> isSceneRootZone (objAt s7 object)
     then notifyObjectChanged env object (updObj object (\<lambda>ob. ob\<lparr>mZoneRefDirty := False\<rparr>) s7)
     else Some s7
   }"

fun unregisterZoneLists :: "U32 list \<Rightarrow> SceneZoneSpaceManager \<Rightarrow> SceneZoneSpaceManager option" where
  "unregisterZoneLists [] s = Some s"
| "unregisterZoneLists (j # js) s = do {
     list \<leftarrow> vectorAt (mZoneLists s) j;
     s1 \<leftarrow> clearZoneList j s;
     s2 \<leftarrow> freeZoneList list s1;
     unregisterZoneLists js s2
   }"

text \<open>
  \<^verbatim>\<open>_disconnectAllZoneSpaces\<close> works on the zone space's own adjacency list, which
  the manager never reads: the call leaves the manager as it is.
\<close>

definition unregisterZones :: "Env \<Rightarrow> obj_ptr \<Rightarrow> SceneZoneSpaceManager \<Rightarrow> SceneZoneSpaceManager option" where
  "unregisterZones env object s = do {
     let zoneSpaceIndex = getZoneSpaceIndex s object;
     AssertFatal (zoneSpaceIndex \<noteq> - 1);
     AssertFatal (mNumActiveZones s \<ge> mNumZones (objAt s object));
     let zoneRangeStart = getZoneRangeStart (objAt s object);
     let numZones = getZoneRange (objAt s object);
     s1 \<leftarrow> unregisterZoneLists [zoneRangeStart..<zoneRangeStart + numZones] s;
     let s2 = s1\<lparr>mNumActiveZones := mNumActiveZones s1 - numZones,
                 mZoneSpaces := vectorErase (mZoneSpaces s1) (nat zoneSpaceIndex)\<rparr>;
     let s3 = updObj object (\<lambda>ob. ob\<lparr>mTypeMask := mTypeMask ob AND NOT (ZoneObjectType env),
                                      mZoneRangeStart := InvalidZoneId,
                                      mNumZones := 0,
                                      mManagerSet := False\<rparr>) s2;
     Some (s3\<lparr>mDirtyArea := Box3F_intersect env (mDirtyArea s3) (getWorldBox (objAt s3 object))\<rparr>)
   }"

subsection \<open>The rezoning engine\<close>

definition setObjectZoneList :: "obj_ptr \<Rightarrow> U32 \<Rightarrow> U32 list \<Rightarrow> SceneZoneSpaceManager \<Rightarrow> SceneZoneSpaceManager option" where
  "setObjectZoneList object numZones zoneList s = do {
     AssertFatal (\<not> isSceneZoneSpace (objAt s object) \<or>
                  list_all (\<lambda>v. \<not> (v \<ge> mZoneRangeStart (objAt s object) \<and>
                                     v < mZoneRangeStart (objAt s object) + mNumZones (objAt s object)))
                           (take numZones zoneList));
     let s1 = (if mZoneListHandle (objAt s object) = 0
               then (let (h, tbl) = allocList numZones zoneList (mObjectZoneLists s)
                     in updObj object (\<lambda>ob. ob\<lparr>mZoneListHandle := h\<rparr>) (s\<lparr>mObjectZoneLists := tbl\<rparr>))
               else if numZones = 0
               then updObj object (\<lambda>ob. ob\<lparr>mZoneListHandle := 0\<rparr>)
                      (s\<lparr>mObjectZoneLists := freeList (mZoneListHandle (objAt s object)) (mObjectZoneLists s)\<rparr>)
               else s\<lparr>mObjectZoneLists :=
                        reallocList (mZoneListHandle (objAt s object)) numZones zoneList (mObjectZoneLists s)\<rparr>);
     Some (updObj object (\<lambda>ob. ob\<lparr>mNumCurrZones := numZones\<rparr>) s1)
   }"

text \<open>
  The loop of \<^verbatim>\<open>_zoneInsert\<close> over the query list. \<open>globalZones\<close> is the part of the
  array written so far, \<open>numGlobalZones\<close> entries; the records are pushed onto
  \<^verbatim>\<open>mTempObjectZones\<close>.
\<close>

fun zoneInsertLoop :: "Env \<Rightarrow> obj_ptr \<Rightarrow> obj_ptr list \<Rightarrow> SceneZoneSpaceManager \<times> bool \<times> U32 \<times> U32 \<times> U32 list \<Rightarrow> (SceneZoneSpaceManager \<times> bool \<times> U32 \<times> U32 \<times> U32 list) option" where
  "zoneInsertLoop env object [] acc = Some acc"
| "zoneInsertLoop env object (q # qs) (s, outsideIncluded, numGlobalZones, remainingZones, globalZones) =
     (if \<not> isSceneZoneSpace (objAt s q)
      then zoneInsertLoop env object qs (s, outsideIncluded, numGlobalZones, remainingZones, globalZones)
      else do {
        AssertFatal (q \<noteq> getRootZone s);
        if q = object
        then zoneInsertLoop env object qs (s, outsideIncluded, numGlobalZones, remainingZones, globalZones)
        else do {
          let (overlapsOutside, zones) = getOverlappingZones env q object;
          AssertFatal (length zones \<noteq> 0 \<or> overlapsOutside);
          let outsideIncluded1 = (outsideIncluded \<and> overlapsOutside);
          let numZones = min remainingZones (length zones);
          if numZones > 0
          then zoneInsertLoop env object qs
                 (s\<lparr>mTempObjectZones := mTempObjectZones s @
                       [\<lparr>recSpace = q, recStartZone = numGlobalZones, recNumZones = numZones\<rparr>]\<rparr>,
                  outsideIncluded1, numGlobalZones + numZones, remainingZones - numZones,
                  globalZones @ take numZones zones)
          else zoneInsertLoop env object qs
                 (s, outsideIncluded1, numGlobalZones, remainingZones, globalZones)
        }
      })"

text \<open>The last loop of \<^verbatim>\<open>_zoneInsert\<close>: every record's zone space is told its zones.\<close>

fun zoneInsertNotify :: "TempZoneRecord list \<Rightarrow> obj_ptr \<Rightarrow> U32 list \<Rightarrow> SceneZoneSpaceManager \<Rightarrow> SceneZoneSpaceManager option" where
  "zoneInsertNotify [] object globalZones s = Some s"
| "zoneInsertNotify (r # rs) object globalZones s = do {
     s1 \<leftarrow> (if recNumZones r > 0
            then onZoneAddObject (recSpace r) object
                   (take (recNumZones r) (drop (recStartZone r) globalZones)) s
            else Some s);
     zoneInsertNotify rs object globalZones s1
   }"

text \<open>
  \<^verbatim>\<open>_zoneInsert\<close>. The array \<^verbatim>\<open>globalZones\<close> has \<^verbatim>\<open>MaxObjectZones\<close> entries: the write of
  the root zone ID at \<^verbatim>\<open>numGlobalZones\<close> has to be inside it.
\<close>

definition zoneInsert :: "Env \<Rightarrow> obj_ptr \<Rightarrow> bool \<Rightarrow> SceneZoneSpaceManager \<Rightarrow> SceneZoneSpaceManager option" where
  "zoneInsert env object queryListInitialized s = do {
     AssertFatal (mNumCurrZones (objAt s object) = 0);
     AssertFatal (hasContainer (objAt s object));
     AssertFatal (\<not> isSceneRootZone (objAt s object));
     let outsideOnly = (mNumActiveZones s = 1 \<or> isGlobalBounds (objAt s object) \<or>
                        mTypeMask (objAt s object) AND OUTDOOR_OBJECT_TYPEMASK env \<noteq> 0);
     let s0 = s\<lparr>mTempObjectZones := []\<rparr>;
     (s1, outsideIncluded, numGlobalZones, remainingZones, globalZones) \<leftarrow>
       (if \<not> outsideOnly
        then (let sq = (if \<not> queryListInitialized
                        then queryZoneSpaces env (getWorldBox (objAt s0 object)) s0 else s0)
              in zoneInsertLoop env object (mZoneSpacesQueryList sq)
                   (sq, True, 0, MaxObjectZones env, []))
        else Some (s0, True, 0, MaxObjectZones env, []));
     (s2, numGlobalZones2, globalZones2) \<leftarrow>
       (if outsideOnly \<or> (outsideIncluded \<and> remainingZones > 0)
        then do {
          AssertFatal (numGlobalZones < MaxObjectZones env);
          Some (s1\<lparr>mTempObjectZones := mTempObjectZones s1 @
                      [\<lparr>recSpace = getRootZone s1, recStartZone = numGlobalZones, recNumZones = 1\<rparr>]\<rparr>,
                numGlobalZones + 1, globalZones @ [RootZoneId])
        }
        else Some (s1, numGlobalZones, globalZones));
     s3 \<leftarrow> (if numGlobalZones2 > 0
            then setObjectZoneList object numGlobalZones2 globalZones2 s2 else Some s2);
     s4 \<leftarrow> zoneInsertNotify (mTempObjectZones s3) object globalZones2 s3;
     Some (updObj object (\<lambda>ob. ob\<lparr>mZoneRefDirty := False\<rparr>) s4)
   }"

fun zoneRemoveLoop :: "U32 list \<Rightarrow> obj_ptr \<Rightarrow> SceneZoneSpaceManager \<Rightarrow> SceneZoneSpaceManager option" where
  "zoneRemoveLoop [] obj s = Some s"
| "zoneRemoveLoop (zoneId # zoneIds) obj s = do {
     owner \<leftarrow> getZoneOwner s zoneId;
     sp \<leftarrow> owner;
     zoneRemoveLoop zoneIds obj (onZoneRemoveObject sp obj s)
   }"

text \<open>The parameter \<open>freeLst\<close> (\<^verbatim>\<open>freeList\<close> in the source) is not used by the body.\<close>

definition zoneRemove :: "obj_ptr \<Rightarrow> bool \<Rightarrow> SceneZoneSpaceManager \<Rightarrow> SceneZoneSpaceManager option" where
  "zoneRemove obj freeLst s =
     (if mZoneListHandle (objAt s obj) = 0 then Some s
      else do {
        zones \<leftarrow> getValues (mObjectZoneLists s) (mZoneListHandle (objAt s obj));
        s1 \<leftarrow> zoneRemoveLoop zones obj s;
        let s2 = s1\<lparr>mObjectZoneLists := freeList (mZoneListHandle (objAt s1 obj)) (mObjectZoneLists s1)\<rparr>;
        Some (updObj obj (\<lambda>it. it\<lparr>mZoneListHandle := 0, mZoneRefDirty := False, mNumCurrZones := 0\<rparr>) s2)
      })"

definition rezoneObject :: "Env \<Rightarrow> obj_ptr \<Rightarrow> SceneZoneSpaceManager \<Rightarrow> SceneZoneSpaceManager option" where
  "rezoneObject env object s = do {
     AssertFatal (\<not> isSceneRootZone (objAt s object));
     if mNumCurrZones (objAt s object) = 0 then zoneInsert env object False s
     else if mNumActiveZones s = 1 \<or> isGlobalBounds (objAt s object) \<or>
             mTypeMask (objAt s object) AND OUTDOOR_OBJECT_TYPEMASK env \<noteq> 0
     then Some (updObj object (\<lambda>ob. ob\<lparr>mZoneRefDirty := False\<rparr>) s)
     else do {
       let s1 = queryZoneSpaces env (getWorldBox (objAt s object)) s;
       let zones = getValues (mObjectZoneLists s1) (mZoneListHandle (objAt s1 object));
       unchanged \<leftarrow> (if mZoneSpacesQueryList s1 = [] \<and> mNumCurrZones (objAt s1 object) = 1
                     then do { zs \<leftarrow> zones; z0 \<leftarrow> vectorAt zs 0; Some (z0 = RootZoneId) }
                     else Some False);
       if unchanged then Some (updObj object (\<lambda>ob. ob\<lparr>mZoneRefDirty := False\<rparr>) s1)
       else do {
         s2 \<leftarrow> zoneRemove object False s1;
         zoneInsert env object True s2
       }
     }
   }"

fun rezoneObjectsLoop :: "Env \<Rightarrow> obj_ptr list \<Rightarrow> SceneZoneSpaceManager \<Rightarrow> SceneZoneSpaceManager option" where
  "rezoneObjectsLoop env [] s = Some s"
| "rezoneObjectsLoop env (object # objects) s = do {
     s1 \<leftarrow> (if object \<noteq> getRootZone s then rezoneObject env object s else Some s);
     rezoneObjectsLoop env objects s1
   }"

definition rezoneObjects :: "Env \<Rightarrow> Box3F \<Rightarrow> SceneZoneSpaceManager \<Rightarrow> SceneZoneSpaceManager option" where
  "rezoneObjects env area s = rezoneObjectsLoop env (findObjectList env area 4294967295) s"

subsection \<open>The update pass\<close>

text \<open>
  The two \<^verbatim>\<open>while\<close> loops of \<^verbatim>\<open>updateZoningState\<close> run until their queue is empty.
  They terminate because nothing a loop body calls touches the dirty lists or the
  dirty area, which is shown first.
\<close>

definition dirtyState :: "SceneZoneSpaceManager \<Rightarrow> obj_ptr list \<times> obj_ptr list \<times> Box3F" where
  "dirtyState s = (mDirtyObjects s, mDirtyZoneSpaces s, mDirtyArea s)"

lemma dirtyState_updObj [simp]: "dirtyState (updObj p f s) = dirtyState s"
  by (simp add: dirtyState_def updObj_def)

lemma dirtyState_heapLists [simp]: "dirtyState (s\<lparr>heapLists := h\<rparr>) = dirtyState s"
  by (simp add: dirtyState_def)

lemma dirtyState_table [simp]: "dirtyState (s\<lparr>mObjectZoneLists := tb\<rparr>) = dirtyState s"
  by (simp add: dirtyState_def)

lemma dirtyState_temp [simp]: "dirtyState (s\<lparr>mTempObjectZones := tz\<rparr>) = dirtyState s"
  by (simp add: dirtyState_def)

lemma dirtyState_query [simp]: "dirtyState (queryZoneSpaces env area s) = dirtyState s"
  by (simp add: dirtyState_def queryZoneSpaces_def)

lemma dirtyState_onZoneRemoveObject [simp]: "dirtyState (onZoneRemoveObject owner object s) = dirtyState s"
  by (simp add: onZoneRemoveObject_def)

lemma dirtyState_onZoneAddObject:
  "onZoneAddObject owner object zoneIds s = Some s' \<Longrightarrow> dirtyState s' = dirtyState s"
  by (induction zoneIds arbitrary: s) (auto split: Option.bind_splits)

lemma dirtyState_clearZoneListLoop:
  "clearZoneListLoop zoneSpace objects s = Some s' \<Longrightarrow> dirtyState s' = dirtyState s"
  by (induction objects arbitrary: s) (auto simp: Let_def split: Option.bind_splits if_splits)

lemma dirtyState_clearZoneList:
  "clearZoneList zoneId s = Some s' \<Longrightarrow> dirtyState s' = dirtyState s"
  by (auto simp: clearZoneList_def dest: dirtyState_clearZoneListLoop split: Option.bind_splits)

lemma dirtyState_setObjectZoneList:
  "setObjectZoneList object numZones zoneList s = Some s' \<Longrightarrow> dirtyState s' = dirtyState s"
  by (auto simp: setObjectZoneList_def Let_def split: Option.bind_splits if_splits prod.splits)

lemma dirtyState_zoneInsertLoop:
  "zoneInsertLoop env object qs (s, acc) = Some (s', acc') \<Longrightarrow> dirtyState s' = dirtyState s"
proof (induction qs arbitrary: s acc)
  case Nil
  then show ?case by simp
next
  case (Cons q qs)
  obtain oi ng rem gz where acc: "acc = (oi, ng, rem, gz)" by (cases acc)
  from Cons.prems show ?case unfolding acc
    by (auto simp: Let_def dest!: Cons.IH split: Option.bind_splits if_splits prod.splits)
qed

lemma dirtyState_zoneInsertNotify:
  "zoneInsertNotify rs object gz s = Some s' \<Longrightarrow> dirtyState s' = dirtyState s"
  by (induction rs arbitrary: s)
     (auto dest: dirtyState_onZoneAddObject split: Option.bind_splits if_splits)

lemma dirtyState_zoneInsert:
  assumes "zoneInsert env object q s = Some s'"
  shows "dirtyState s' = dirtyState s"
  using assms
  by (auto simp: zoneInsert_def Let_def
           dest!: dirtyState_zoneInsertLoop dirtyState_zoneInsertNotify dirtyState_setObjectZoneList
           split: Option.bind_splits if_splits prod.splits)

lemma dirtyState_zoneRemoveLoop:
  "zoneRemoveLoop zoneIds obj s = Some s' \<Longrightarrow> dirtyState s' = dirtyState s"
  by (induction zoneIds arbitrary: s) (auto split: Option.bind_splits)

lemma dirtyState_zoneRemove:
  "zoneRemove obj fl s = Some s' \<Longrightarrow> dirtyState s' = dirtyState s"
  by (auto simp: zoneRemove_def Let_def dest!: dirtyState_zoneRemoveLoop split: Option.bind_splits if_splits)

lemma dirtyState_rezoneObject:
  "rezoneObject env object s = Some s' \<Longrightarrow> dirtyState s' = dirtyState s"
  by (auto simp: rezoneObject_def Let_def dest!: dirtyState_zoneRemove dirtyState_zoneInsert
           split: Option.bind_splits if_splits)

lemma dirtyState_rezoneObjectsLoop:
  "rezoneObjectsLoop env objects s = Some s' \<Longrightarrow> dirtyState s' = dirtyState s"
  by (induction objects arbitrary: s)
     (auto dest!: dirtyState_rezoneObject split: Option.bind_splits if_splits)


text \<open>
  The loop of \<^verbatim>\<open>updateZoningState\<close> that nukes the zone lists of a dirty zone space:
  \<^verbatim>\<open>_clearZoneList( zoneSpace->getZoneRangeStart() + n )\<close> for every \<open>n\<close>.
\<close>

fun clearZoneLists :: "U32 list \<Rightarrow> obj_ptr \<Rightarrow> SceneZoneSpaceManager \<Rightarrow> SceneZoneSpaceManager option" where
  "clearZoneLists [] zoneSpace s = Some s"
| "clearZoneLists (n # ns) zoneSpace s = do {
     s1 \<leftarrow> clearZoneList (getZoneRangeStart (objAt s zoneSpace) + n) s;
     clearZoneLists ns zoneSpace s1
   }"

lemma dirtyState_clearZoneLists:
  "clearZoneLists ns zoneSpace s = Some s' \<Longrightarrow> dirtyState s' = dirtyState s"
  by (induction ns arbitrary: s) (auto dest!: dirtyState_clearZoneList split: Option.bind_splits)

text \<open>The body of the first \<^verbatim>\<open>while\<close> loop: one dirty zone space is taken off the end.\<close>

definition dirtyZoneSpaceStep :: "Env \<Rightarrow> SceneZoneSpaceManager \<Rightarrow> SceneZoneSpaceManager option" where
  "dirtyZoneSpaceStep env s = do {
     let zoneSpace = last (mDirtyZoneSpaces s);
     let s1 = s\<lparr>mDirtyZoneSpaces := butlast (mDirtyZoneSpaces s)\<rparr>;
     s2 \<leftarrow> zoneRemove zoneSpace True s1;
     let numZones = getZoneRange (objAt s2 zoneSpace);
     s3 \<leftarrow> clearZoneLists [0..<numZones] zoneSpace s2;
     Some (s3\<lparr>mDirtyArea := Box3F_intersect env (mDirtyArea s3) (getWorldBox (objAt s3 zoneSpace))\<rparr>)
   }"

lemma dirtyZoneSpaceStep_queue:
  "dirtyZoneSpaceStep env s = Some s' \<Longrightarrow>
     mDirtyZoneSpaces s' = butlast (mDirtyZoneSpaces s) \<and> mDirtyObjects s' = mDirtyObjects s"
  by (auto simp: dirtyZoneSpaceStep_def Let_def dirtyState_def
           dest!: dirtyState_zoneRemove dirtyState_clearZoneLists split: Option.bind_splits)

function drainDirtyZoneSpaces :: "Env \<Rightarrow> SceneZoneSpaceManager \<Rightarrow> SceneZoneSpaceManager option" where
  "drainDirtyZoneSpaces env s =
     (if mDirtyZoneSpaces s = [] then Some s
      else do { s1 \<leftarrow> dirtyZoneSpaceStep env s; drainDirtyZoneSpaces env s1 })"
  by pat_completeness auto
termination
proof (relation "measure (\<lambda>(env, s). length (mDirtyZoneSpaces s))")
  show "wf (measure (\<lambda>(env, s). length (mDirtyZoneSpaces s)))" by simp
next
  fix env s s1
  assume "mDirtyZoneSpaces s \<noteq> []" and "dirtyZoneSpaceStep env s = Some s1"
  then show "((env, s1), (env, s)) \<in> measure (\<lambda>(env, s). length (mDirtyZoneSpaces s))"
    by (auto dest!: dirtyZoneSpaceStep_queue)
qed

declare drainDirtyZoneSpaces.simps [simp del]

text \<open>The body of the last \<^verbatim>\<open>while\<close> loop: one dirty object is taken off the end.\<close>

definition dirtyObjectStep :: "Env \<Rightarrow> SceneZoneSpaceManager \<Rightarrow> SceneZoneSpaceManager option" where
  "dirtyObjectStep env s = do {
     let object = last (mDirtyObjects s);
     let s1 = s\<lparr>mDirtyObjects := butlast (mDirtyObjects s)\<rparr>;
     s2 \<leftarrow> (if mZoneRefDirty (objAt s1 object) then rezoneObject env object s1 else Some s1);
     AssertFatal (\<not> mZoneRefDirty (objAt s2 object));
     Some s2
   }"

lemma dirtyObjectStep_queue:
  "dirtyObjectStep env s = Some s' \<Longrightarrow>
     mDirtyObjects s' = butlast (mDirtyObjects s) \<and> mDirtyZoneSpaces s' = mDirtyZoneSpaces s \<and>
     mDirtyArea s' = mDirtyArea s"
  by (auto simp: dirtyObjectStep_def Let_def dirtyState_def
           dest!: dirtyState_rezoneObject split: Option.bind_splits if_splits)

function drainDirtyObjects :: "Env \<Rightarrow> SceneZoneSpaceManager \<Rightarrow> SceneZoneSpaceManager option" where
  "drainDirtyObjects env s =
     (if mDirtyObjects s = [] then Some s
      else do { s1 \<leftarrow> dirtyObjectStep env s; drainDirtyObjects env s1 })"
  by pat_completeness auto
termination
proof (relation "measure (\<lambda>(env, s). length (mDirtyObjects s))")
  show "wf (measure (\<lambda>(env, s). length (mDirtyObjects s)))" by simp
next
  fix env s s1
  assume "mDirtyObjects s \<noteq> []" and "dirtyObjectStep env s = Some s1"
  then show "((env, s1), (env, s)) \<in> measure (\<lambda>(env, s). length (mDirtyObjects s))"
    by (auto dest!: dirtyObjectStep_queue)
qed

declare drainDirtyObjects.simps [simp del]

text \<open>
  \<^verbatim>\<open>updateZoningState\<close> up to its two closing assertions. Firing the zoning-changed
  signal runs the observers' code, which is outside the manager.
\<close>

definition updateZoningStatePasses :: "Env \<Rightarrow> SceneZoneSpaceManager \<Rightarrow> SceneZoneSpaceManager option" where
  "updateZoningStatePasses env s = do {
     s1 \<leftarrow> drainDirtyZoneSpaces env s;
     s2 \<leftarrow> (if mDirtyArea s1 \<noteq> Box3F_Invalid env
            then do {
              s' \<leftarrow> rezoneObjects env (mDirtyArea s1) s1;
              Some (s'\<lparr>mDirtyArea := Box3F_Invalid env\<rparr>)
            }
            else Some s1);
     drainDirtyObjects env s2
   }"

definition updateZoningState :: "Env \<Rightarrow> SceneZoneSpaceManager \<Rightarrow> SceneZoneSpaceManager option" where
  "updateZoningState env s =
     (if mDirtyObjects s = [] \<and> mDirtyZoneSpaces s = [] \<and> mDirtyArea s = Box3F_Invalid env
      then Some s
      else do {
        s3 \<leftarrow> updateZoningStatePasses env s;
        AssertFatal (mDirtyObjects s3 = []);
        AssertFatal (mDirtyZoneSpaces s3 = []);
        Some s3
      })"

section \<open>Notions for the properties, and concrete scenes\<close>

text \<open>
  The definitions below are not part of the source: they name what the properties
  are about (views of the manager, the invariant of the allocator, what a function is
  expected to return) and the scenes the functions are run on.
\<close>

subsection \<open>Sequences of registrations and a concrete scene\<close>

text \<open>
  A call of \<^verbatim>\<open>registerZones\<close> or \<^verbatim>\<open>unregisterZones\<close>, and running a sequence of them;
  the sequence stops where an assertion fires.
\<close>

datatype ZoneOp = RegisterZones obj_ptr U32 | UnregisterZones obj_ptr

fun applyOp :: "Env \<Rightarrow> ZoneOp \<Rightarrow> SceneZoneSpaceManager \<Rightarrow> SceneZoneSpaceManager option" where
  "applyOp env (RegisterZones object numZones) s = registerZones env object numZones s"
| "applyOp env (UnregisterZones object) s = unregisterZones env object s"

fun runOps :: "Env \<Rightarrow> ZoneOp list \<Rightarrow> SceneZoneSpaceManager \<Rightarrow> SceneZoneSpaceManager option" where
  "runOps env [] s = Some s"
| "runOps env (zop # zops) s = do { s1 \<leftarrow> applyOp env zop s; runOps env zops s1 }"

text \<open>
  A scene to run the functions on: the root zone at address 0, zone spaces at the
  addresses 1 to 9, plain objects from 10 on. The container finds the zone spaces 1
  and 2 (and the object 10) in every box; zone space 1 reports its zones 1 and 2 and
  no overlap with the outside, zone space 2 its zone 3 and an overlap with the
  outside. The constants of the headers get values for the scene: an object is in
  128 zones at most, \<^verbatim>\<open>ZoneObjectType\<close> is bit 7 and the outdoor types are the bits 1
  and 2; merging the dirty area with a box gives the box.
\<close>

definition exBox :: Box3F where
  "exBox = \<lparr>minExtents = \<lparr>ptX = 0, ptY = 0, ptZ = 0\<rparr>, maxExtents = \<lparr>ptX = 1, ptY = 1, ptZ = 1\<rparr>\<rparr>"

definition exInvalid :: Box3F where
  "exInvalid = \<lparr>minExtents = \<lparr>ptX = 1, ptY = 1, ptZ = 1\<rparr>, maxExtents = \<lparr>ptX = - 1, ptY = - 1, ptZ = - 1\<rparr>\<rparr>"

definition exPlain :: SceneObject where
  "exPlain = \<lparr>mZoneListHandle = 0, mNumCurrZones = 0, mZoneRefDirty = False, mTypeMask = 1,
     isGlobalBounds = False, getWorldBox = exBox, hasContainer = True, isSceneZoneSpace = False,
     isSceneRootZone = False, mNumZones = 0, mZoneRangeStart = InvalidZoneId, mManagerSet = False\<rparr>"

definition exHeap :: "obj_ptr \<Rightarrow> SceneObject" where
  "exHeap p = (if p = 0 then exPlain\<lparr>isSceneZoneSpace := True, isSceneRootZone := True, isGlobalBounds := True\<rparr>
               else if p < 10 then exPlain\<lparr>isSceneZoneSpace := True\<rparr> else exPlain)"

definition exEnv :: Env where
  "exEnv = \<lparr>MaxObjectZones = 128, ZoneObjectType = 128, OUTDOOR_OBJECT_TYPEMASK = 6,
     Box3F_Invalid = exInvalid, Box3F_intersect = (\<lambda>a b. b),
     findObjectList = (\<lambda>area mask. if mask = 128 then [1, 2] else [10, 1, 2]),
     getPointZone = (\<lambda>q p. if q = 2 then 3 else InvalidZoneId),
     getOverlappingZonesBox = (\<lambda>q area. if q = 1 then (False, [1, 2]) else (True, [3])),
     getOverlappingZones = (\<lambda>q ob. if q = 1 then (False, [1, 2]) else (True, [3]))\<rparr>"

definition exManager :: SceneZoneSpaceManager where
  "exManager = newSceneZoneSpaceManager exEnv exHeap 0"

text \<open>The scene after the root zone and the zone spaces 1 (two zones) and 2 (one zone) registered.\<close>

definition exScene :: SceneZoneSpaceManager where
  "exScene = the (runOps exEnv [RegisterZones 0 1, RegisterZones 1 2, RegisterZones 2 1] exManager)"

subsection \<open>Region and point queries\<close>

definition zoneSpacesOf :: "SceneZoneSpaceManager \<Rightarrow> obj_ptr list \<Rightarrow> obj_ptr list" where
  "zoneSpacesOf s qs = filter (\<lambda>q. isSceneZoneSpace (objAt s q)) qs"

text \<open>
  What the claim says \<^verbatim>\<open>findZones\<close> appends: the zone IDs reported by the zone spaces
  that the container query found, and the root zone ID when a zone space reported an
  overlap with the outside or no zone was collected.
\<close>

definition reportedZones :: "Env \<Rightarrow> SceneZoneSpaceManager \<Rightarrow> Box3F \<Rightarrow> U32 list" where
  "reportedZones env s area =
     concat (map (\<lambda>q. snd (getOverlappingZonesBox env q area))
                 (zoneSpacesOf s (findObjectList env area (ZoneObjectType env))))"

definition reportedOutside :: "Env \<Rightarrow> SceneZoneSpaceManager \<Rightarrow> Box3F \<Rightarrow> bool" where
  "reportedOutside env s area =
     list_ex (\<lambda>q. fst (getOverlappingZonesBox env q area))
             (zoneSpacesOf s (findObjectList env area (ZoneObjectType env)))"

definition findZonesAppended :: "Env \<Rightarrow> SceneZoneSpaceManager \<Rightarrow> Box3F \<Rightarrow> U32 list" where
  "findZonesAppended env s area =
     reportedZones env s area @
       (if reportedOutside env s area \<or> reportedZones env s area = [] then [RootZoneId] else [])"

text \<open>What the claim says \<^verbatim>\<open>findZone\<close> returns.\<close>

definition findZoneExpected :: "Env \<Rightarrow> SceneZoneSpaceManager \<Rightarrow> Point3F \<Rightarrow> obj_ptr \<times> U32" where
  "findZoneExpected env s p =
     (if mNumActiveZones s = 1 then (getRootZone s, RootZoneId)
      else (case find (\<lambda>q. getPointZone env q p \<noteq> InvalidZoneId)
                      (zoneSpacesOf s (findObjectList env (queryBox p) (ZoneObjectType env))) of
              None \<Rightarrow> (getRootZone s, RootZoneId)
            | Some q \<Rightarrow> (q, getPointZone env q p)))"

subsection \<open>Registering a plain object\<close>

text \<open>The part of the manager that zone membership lives in.\<close>

definition membershipState :: "SceneZoneSpaceManager \<Rightarrow> ObjectZoneLists \<times> list_ptr option list \<times> ZoneObjectList list \<times> (obj_ptr \<Rightarrow> U32 \<times> U32)" where
  "membershipState s =
     (mObjectZoneLists s, mZoneLists s, heapLists s,
      \<lambda>p. (mZoneListHandle (objAt s p), mNumCurrZones (objAt s p)))"

subsection \<open>The zone ID allocator: ranges, compaction and the root zone\<close>

text \<open>The ID range of a zone space, as start and number of zones, and what the allocator owns.\<close>

definition zoneRange :: "SceneZoneSpaceManager \<Rightarrow> obj_ptr \<Rightarrow> U32 \<times> U32" where
  "zoneRange s p = (mZoneRangeStart (objAt s p), mNumZones (objAt s p))"

definition allocatorState :: "SceneZoneSpaceManager \<Rightarrow> obj_ptr \<times> obj_ptr list \<times> U32 \<times> U32 \<times> (obj_ptr \<Rightarrow> U32 \<times> U32)" where
  "allocatorState s =
     (mRootZone s, mZoneSpaces s, mNumTotalAllocatedZones s, mNumActiveZones s, zoneRange s)"

text \<open>The range starts that a walk from \<open>next\<close> gives to zone spaces with the given zone counts.\<close>

fun assignStarts :: "U32 \<Rightarrow> U32 list \<Rightarrow> U32 list" where
  "assignStarts next [] = []"
| "assignStarts next (n # ns) = next # assignStarts (next + n) ns"

text \<open>
  The ranges of the zone spaces in list order, each starting at or after the end of
  the one before it, the first at or after \<open>lo\<close> and the last ending at or before \<open>hi\<close>.
\<close>

fun rangesChain :: "U32 \<Rightarrow> (U32 \<times> U32) list \<Rightarrow> U32 \<Rightarrow> bool" where
  "rangesChain lo [] hi = (lo \<le> hi)"
| "rangesChain lo (r # rs) hi = (lo \<le> fst r \<and> rangesChain (fst r + snd r) rs hi)"

definition ownerRanges :: "SceneZoneSpaceManager \<Rightarrow> (U32 \<times> U32) list" where
  "ownerRanges s = map (zoneRange s) (mZoneSpaces s)"

definition allocatorInv :: "SceneZoneSpaceManager \<Rightarrow> bool" where
  "allocatorInv s \<longleftrightarrow>
     distinct (mZoneSpaces s) \<and>
     rangesChain 0 (ownerRanges s) (mNumTotalAllocatedZones s) \<and>
     mNumActiveZones s = sum_list (map snd (ownerRanges s))"

definition zoneIds :: "SceneZoneSpaceManager \<Rightarrow> obj_ptr \<Rightarrow> U32 set" where
  "zoneIds s p = {mZoneRangeStart (objAt s p) ..< mZoneRangeStart (objAt s p) + mNumZones (objAt s p)}"

definition activeZoneIds :: "SceneZoneSpaceManager \<Rightarrow> U32 set" where
  "activeZoneIds s = (\<Union>p \<in> set (mZoneSpaces s). zoneIds s p)"

text \<open>
  The check of \<^verbatim>\<open>verifyState\<close> that no other zone space owns any of the same IDs:
  its two nested loops over the indices of \<^verbatim>\<open>mZoneSpaces\<close>.
\<close>

definition verifyStateNoOverlap :: "SceneZoneSpaceManager \<Rightarrow> bool" where
  "verifyStateNoOverlap s =
     list_all (\<lambda>i. list_all (\<lambda>n. n = i \<or>
          (let space = objAt s (mZoneSpaces s ! i); otherSpace = objAt s (mZoneSpaces s ! n)
           in getZoneRangeStart otherSpace \<ge> getZoneRangeStart space + getZoneRange space \<or>
              getZoneRangeStart otherSpace + getZoneRange otherSpace \<le> getZoneRangeStart space))
        [0..<length (mZoneSpaces s)]) [0..<length (mZoneSpaces s)]"

text \<open>The claim's second half: the active ranges together are all of \<open>[0, totalAllocated)\<close>.\<close>

definition rangesCoverAllocated :: "SceneZoneSpaceManager \<Rightarrow> bool" where
  "rangesCoverAllocated s \<longleftrightarrow> activeZoneIds s = {0 ..< mNumTotalAllocatedZones s}"

definition exHoles :: SceneZoneSpaceManager where
  "exHoles = the (runOps exEnv [RegisterZones 0 1, RegisterZones 1 2, RegisterZones 2 1,
                                UnregisterZones 1] exManager)"

fun opObject :: "ZoneOp \<Rightarrow> obj_ptr" where
  "opObject (RegisterZones object numZones) = object"
| "opObject (UnregisterZones object) = object"

text \<open>The two assertions of \<^verbatim>\<open>verifyState\<close> on the root zone.\<close>

definition verifyStateRootZone :: "SceneZoneSpaceManager \<Rightarrow> bool" where
  "verifyStateRootZone s \<longleftrightarrow>
     getZoneRangeStart (objAt s (mRootZone s)) = 0 \<and> getZoneRange (objAt s (mRootZone s)) = 1"

text \<open>Whether the root zone is in \<^verbatim>\<open>mZoneSpaces\<close>, the list that the compaction walks.\<close>

definition rootInOwnerList :: "SceneZoneSpaceManager \<Rightarrow> bool" where
  "rootInOwnerList s \<longleftrightarrow> getRootZone s \<in> set (mZoneSpaces s)"

definition rootFirst :: "obj_ptr \<Rightarrow> SceneZoneSpaceManager \<Rightarrow> bool" where
  "rootFirst rootZone s \<longleftrightarrow>
     mRootZone s = rootZone \<and> allocatorInv s \<and> mZoneSpaces s \<noteq> [] \<and>
     hd (mZoneSpaces s) = rootZone \<and> zoneRange s rootZone = (0, 1)"

definition exCompacted :: SceneZoneSpaceManager where
  "exCompacted = the (runOps exEnv [RegisterZones 0 1, RegisterZones 1 2, RegisterZones 2 1,
                                    UnregisterZones 1, RegisterZones 3 1] exManager)"

text \<open>
  Scenario C: the root zone, zone space 1 with twelve zones and zone space 2 with nine
  are registered, 22 zones in all; unregistering zone space 1 leaves 10 of them active.
\<close>

definition exScenarioC :: SceneZoneSpaceManager where
  "exScenarioC = the (runOps exEnv [RegisterZones 0 1, RegisterZones 1 12, RegisterZones 2 9] exManager)"

definition exScenarioC' :: SceneZoneSpaceManager where
  "exScenarioC' = the (unregisterZones exEnv 1 exScenarioC)"

subsection \<open>Inserting an object into its zones and removing it\<close>

text \<open>The zone IDs the membership table holds for an object.\<close>

definition objectZones :: "SceneZoneSpaceManager \<Rightarrow> obj_ptr \<Rightarrow> U32 list option" where
  "objectZones s p = getValues (mObjectZoneLists s) (mZoneListHandle (objAt s p))"

text \<open>
  The zone spaces that \<^verbatim>\<open>_zoneInsert\<close> asks: those of the query list, without the
  object itself; and what they report, the outside-overlap flag and the zone IDs.
\<close>

definition insertQuery :: "Env \<Rightarrow> SceneZoneSpaceManager \<Rightarrow> obj_ptr \<Rightarrow> bool \<Rightarrow> obj_ptr list" where
  "insertQuery env s object queryListInitialized =
     (if queryListInitialized then mZoneSpacesQueryList s
      else findObjectList env (getWorldBox (objAt s object)) (ZoneObjectType env))"

definition overlappingOwners :: "SceneZoneSpaceManager \<Rightarrow> obj_ptr \<Rightarrow> obj_ptr list \<Rightarrow> obj_ptr list" where
  "overlappingOwners s object qs = filter (\<lambda>q. isSceneZoneSpace (objAt s q) \<and> q \<noteq> object) qs"

definition ownerReports :: "Env \<Rightarrow> SceneZoneSpaceManager \<Rightarrow> obj_ptr \<Rightarrow> obj_ptr list \<Rightarrow> (bool \<times> U32 list) list" where
  "ownerReports env s object qs = map (\<lambda>q. getOverlappingZones env q object) (overlappingOwners s object qs)"

definition outsideOnly :: "Env \<Rightarrow> SceneZoneSpaceManager \<Rightarrow> obj_ptr \<Rightarrow> bool" where
  "outsideOnly env s object \<longleftrightarrow>
     mNumActiveZones s = 1 \<or> isGlobalBounds (objAt s object) \<or>
     mTypeMask (objAt s object) AND OUTDOOR_OBJECT_TYPEMASK env \<noteq> 0"

text \<open>
  The membership \<^verbatim>\<open>_zoneInsert\<close> gives an object that is not outdoor-only: the reported
  zone IDs up to \<^verbatim>\<open>MaxObjectZones\<close>, and the root zone when every asked zone space
  reported an overlap with the outside and a slot is left.
\<close>

definition insertedZones :: "U32 \<Rightarrow> (bool \<times> U32 list) list \<Rightarrow> U32 list" where
  "insertedZones maxZones reports =
     take maxZones (concat (map snd reports)) @
       (if list_all fst reports \<and> length (concat (map snd reports)) < maxZones then [RootZoneId] else [])"

definition membershipOf :: "SceneZoneSpaceManager \<Rightarrow> obj_ptr \<Rightarrow> U32 list option \<times> U32 \<times> U32" where
  "membershipOf s p = (objectZones s p, mNumCurrZones (objAt s p), mZoneListHandle (objAt s p))"

definition zoneInsertFinal :: "Env \<Rightarrow> SceneZoneSpaceManager \<Rightarrow> obj_ptr \<Rightarrow> bool \<Rightarrow> U32 list" where
  "zoneInsertFinal env s object queryListInitialized =
     (if outsideOnly env s object then [RootZoneId]
      else insertedZones (MaxObjectZones env)
             (ownerReports env s object (insertQuery env s object queryListInitialized)))"

text \<open>Whether the root zone ID is among the zone IDs the table holds for an object.\<close>

definition rootIncluded :: "obj_ptr \<Rightarrow> SceneZoneSpaceManager \<Rightarrow> bool" where
  "rootIncluded p s = (case objectZones s p of None \<Rightarrow> False | Some zs \<Rightarrow> RootZoneId \<in> set zs)"

text \<open>The claim's condition: every overlapping zone space reports an overlap with the outside.\<close>

definition everyOwnerOutside :: "Env \<Rightarrow> SceneZoneSpaceManager \<Rightarrow> obj_ptr \<Rightarrow> bool \<Rightarrow> bool" where
  "everyOwnerOutside env s object queryListInitialized =
     list_all fst (ownerReports env s object (insertQuery env s object queryListInitialized))"

text \<open>A scene in which an object may be in two zones at most, and zone space 1 reports both of its zones and an overlap with the outside.\<close>

definition exEnvSmall :: Env where
  "exEnvSmall = exEnv\<lparr>MaxObjectZones := 2,
                       findObjectList := (\<lambda>area mask. if mask = 128 then [1] else [10, 1]),
                       getOverlappingZones := (\<lambda>q ob. (True, [1, 2]))\<rparr>"

definition exInserted :: SceneZoneSpaceManager where
  "exInserted = the (zoneInsert exEnv 10 False exScene)"

definition exRemoved :: SceneZoneSpaceManager where
  "exRemoved = the (zoneRemove 10 True exInserted)"

subsection \<open>The update pass drains the dirty state\<close>

definition exDirty :: SceneZoneSpaceManager where
  "exDirty = the (registerObject exEnv 10 exScene)"

definition exUpdated :: SceneZoneSpaceManager where
  "exUpdated = the (updateZoningState exEnv exDirty)"

subsection \<open>The compaction and the membership table\<close>

text \<open>
  A scene for the compaction: the zone spaces 1, 2 and 3 have one zone each; the
  container finds zone space 3 and the object 10 in every box, and zone space 3
  reports that the object 10 is inside its zone 3.
\<close>

definition exEnvC :: Env where
  "exEnvC = exEnv\<lparr>findObjectList := (\<lambda>area mask. if mask = 128 then [3] else [10, 3]),
                    getOverlappingZones := (\<lambda>q ob. if q = 3 \<and> ob = 10 then (False, [3]) else (True, []))\<rparr>"

text \<open>
  The three zone spaces are registered after the root zone, the object 10 is
  registered and the zoning state is updated; then the zone spaces 1 and 2 are
  unregistered, which leaves 2 of 4 zones active.
\<close>

definition exBeforeCompaction :: "SceneZoneSpaceManager option" where
  "exBeforeCompaction = do {
     s1 \<leftarrow> runOps exEnvC [RegisterZones 0 1, RegisterZones 1 1, RegisterZones 2 1, RegisterZones 3 1]
            (newSceneZoneSpaceManager exEnvC exHeap 0);
     s2 \<leftarrow> registerObject exEnvC 10 s1;
     s3 \<leftarrow> updateZoningState exEnvC s2;
     runOps exEnvC [UnregisterZones 1, UnregisterZones 2] s3
   }"

text \<open>Registering zone space 4 then runs the compaction.\<close>

definition exAfterCompaction :: "SceneZoneSpaceManager option" where
  "exAfterCompaction = do { s4 \<leftarrow> exBeforeCompaction; registerZones exEnvC 4 1 s4 }"

text \<open>
  The check of \<^verbatim>\<open>verifyState\<close> on a zone: every object of the zone's list has the zone
  in its entry of the membership table.
\<close>

definition verifyStateZoneList :: "SceneZoneSpaceManager \<Rightarrow> U32 \<Rightarrow> bool" where
  "verifyStateZoneList s zoneId =
     (case vectorAt (mZoneLists s) zoneId of
        None \<Rightarrow> False
      | Some list \<Rightarrow>
          (case derefList s list of
             None \<Rightarrow> False
           | Some l \<Rightarrow> list_all (\<lambda>object. containsBinItem (mObjectZoneLists s)
                                             (mZoneListHandle (objAt s object)) zoneId)
                                (getObjects l)))"

definition zoneObjects :: "SceneZoneSpaceManager \<Rightarrow> U32 \<Rightarrow> obj_ptr list option" where
  "zoneObjects s zoneId = do {
     list \<leftarrow> vectorAt (mZoneLists s) zoneId;
     l \<leftarrow> derefList s list;
     Some (getObjects l)
   }"

section \<open>Running the model on concrete input\<close>

text \<open>
  Rules to run the model on concrete input with the simplifier: the continuation of a
  bind, the body of a let and the branches of a case are only rewritten once their
  argument is a value.
\<close>

lemma bind_weak_cong: "m = m' \<Longrightarrow> Option.bind m f = Option.bind m' f"
  by simp

lemma replicate_numeral: "replicate (numeral k) v = v # replicate (pred_numeral k) v"
  by (simp add: numeral_eq_Suc)

lemma list_update_Cons_numeral: "(v # xs)[numeral k := w] = v # xs[pred_numeral k := w]"
  by (simp add: numeral_eq_Suc)

lemmas eval_congs = bind_weak_cong let_weak_cong if_weak_cong option.case_cong_weak prod.case_cong_weak

lemmas eval_simps = replicate_numeral list_update_Cons_numeral upt_rec

lemmas model_defs = registerZones_def unregisterZones_def compactZonesCheck_def compactZones_def
  getZoneSpaceIndex_def AssertFatal_def updObj_def objAt_def notifyObjectChanged_def
  allocZoneList_def vectorSet_def vectorAt_def newSceneZoneSpaceManager_def getRootZone_def
  freeZoneList_def clearZoneList_def derefList_def getZoneOwner_def getNumZones_def
  getZoneRangeStart_def getZoneRange_def vectorErase_def onZoneRemoveObject_def
  InvalidZoneId_def RootZoneId_def queryZoneSpaces_def

lemmas scene_defs = exEnv_def exHeap_def exPlain_def exInvalid_def exBox_def exManager_def exScene_def

section \<open>Region and point queries\<close>

lemma pushZones_eq: "pushZones zones (outZones, n) = (outZones @ zones, n + length zones)"
  by (induction zones arbitrary: outZones n) auto

lemma zoneSpacesOf_query [simp]: "zoneSpacesOf (queryZoneSpaces env area s) qs = zoneSpacesOf s qs"
  by (simp add: zoneSpacesOf_def queryZoneSpaces_def objAt_def)

lemma getRootZone_query [simp]: "getRootZone (queryZoneSpaces env area s) = getRootZone s"
  by (simp add: getRootZone_def queryZoneSpaces_def)

lemma mZoneSpacesQueryList_query [simp]:
  "mZoneSpacesQueryList (queryZoneSpaces env area s) = findObjectList env area (ZoneObjectType env)"
  by (simp add: queryZoneSpaces_def)

lemma findZonesLoop_Some:
  "findZonesLoop env s area qs (oi, out, n) = Some (oi', out', n') \<Longrightarrow>
     out' = out @ concat (map (\<lambda>q. snd (getOverlappingZonesBox env q area)) (zoneSpacesOf s qs)) \<and>
     n' = n + length (concat (map (\<lambda>q. snd (getOverlappingZonesBox env q area)) (zoneSpacesOf s qs))) \<and>
     (oi' \<longleftrightarrow> oi \<or> (\<exists>q \<in> set (zoneSpacesOf s qs). fst (getOverlappingZonesBox env q area)))"
proof (induction qs arbitrary: oi out n)
  case Nil
  then show ?case by (simp add: zoneSpacesOf_def)
next
  case (Cons q qs)
  show ?case
  proof (cases "isSceneZoneSpace (objAt s q)")
    case False
    with Cons show ?thesis by (simp add: zoneSpacesOf_def)
  next
    case True
    obtain outside zones where oz: "getOverlappingZonesBox env q area = (outside, zones)"
      by (cases "getOverlappingZonesBox env q area")
    from Cons.prems True oz have
      rec: "findZonesLoop env s area qs (oi \<or> outside, out @ zones, n + length zones) = Some (oi', out', n')"
      by (simp add: AssertFatal_def pushZones_eq split: if_splits)
    from Cons.IH [OF rec] True oz show ?thesis
      by (auto simp: zoneSpacesOf_def)
  qed
qed

lemma findZonesLoop_None_iff:
  "findZonesLoop env s area qs acc = None \<longleftrightarrow> getRootZone s \<in> set (zoneSpacesOf s qs)"
proof (induction qs arbitrary: acc)
  case Nil
  then show ?case by (simp add: zoneSpacesOf_def)
next
  case (Cons q qs)
  obtain oi out n where acc: "acc = (oi, out, n)" by (cases acc)
  show ?case unfolding acc using Cons.IH
    by (auto simp: zoneSpacesOf_def AssertFatal_def pushZones_eq split: prod.splits)
qed

text \<open>
  Claim C6. For every area, \<^verbatim>\<open>findZones\<close> appends to the output list the zone IDs
  reported by the zone spaces overlapping the area, in the order of the query, and
  then the root zone ID exactly when a zone space reported an overlap with the
  outside or no zone was collected; the count it returns is the number of IDs it
  appended. It returns unless the query hands back the root zone, which the
  assertion of the loop excludes.
\<close>

theorem findZones_appends_reported_zones:
  "findZones env s area outZones =
     (if getRootZone s \<in> set (zoneSpacesOf s (findObjectList env area (ZoneObjectType env))) then None
      else Some (queryZoneSpaces env area s,
                 length (findZonesAppended env s area),
                 outZones @ findZonesAppended env s area))"
proof (cases "getRootZone s \<in> set (zoneSpacesOf s (findObjectList env area (ZoneObjectType env)))")
  case True
  then have "findZonesLoop env (queryZoneSpaces env area s) area
               (findObjectList env area (ZoneObjectType env)) (False, outZones, 0) = None"
    by (simp add: findZonesLoop_None_iff)
  with True show ?thesis by (simp add: findZones_def)
next
  case False
  then have "findZonesLoop env (queryZoneSpaces env area s) area
               (findObjectList env area (ZoneObjectType env)) (False, outZones, 0) \<noteq> None"
    by (simp add: findZonesLoop_None_iff)
  then obtain oi out n where
    loop: "findZonesLoop env (queryZoneSpaces env area s) area
               (findObjectList env area (ZoneObjectType env)) (False, outZones, 0) = Some (oi, out, n)"
    by (cases "findZonesLoop env (queryZoneSpaces env area s) area
               (findObjectList env area (ZoneObjectType env)) (False, outZones, 0)") auto
  from findZonesLoop_Some [OF loop]
  have out: "out = outZones @ reportedZones env s area"
    and n: "n = length (reportedZones env s area)"
    and oi: "oi \<longleftrightarrow> reportedOutside env s area"
    by (simp_all add: reportedZones_def reportedOutside_def list_ex_iff)
  from False loop show ?thesis
    by (simp add: findZones_def findZonesAppended_def out n oi)
qed

theorem findZones_appends_reported_zones_witness:
  "map_option snd (findZones exEnv exScene exBox [7]) = Some (4, [7, 1, 2, 3, 0])"
  using findZones_appends_reported_zones [of exEnv exScene exBox "[7]"]
  by (simp add: findZonesAppended_def reportedZones_def reportedOutside_def zoneSpacesOf_def
        model_defs scene_defs eval_simps cong: eval_congs)

lemma findZoneLoop_Some:
  "findZoneLoop env s p qs = Some r \<Longrightarrow>
     r = map_option (\<lambda>q. (q, getPointZone env q p))
           (find (\<lambda>q. getPointZone env q p \<noteq> InvalidZoneId) (zoneSpacesOf s qs))"
  by (induction qs) (auto simp: zoneSpacesOf_def AssertFatal_def split: if_splits)

lemma findZoneLoop_total:
  "getRootZone s \<notin> set (zoneSpacesOf s qs) \<Longrightarrow> findZoneLoop env s p qs \<noteq> None"
  by (induction qs) (auto simp: zoneSpacesOf_def AssertFatal_def Let_def split: if_splits)

lemma findZone_Some:
  assumes "findZone env s p = Some (s', owner, zone)"
  shows "(owner, zone) = findZoneExpected env s p"
proof (cases "mNumActiveZones s = 1")
  case True
  with assms show ?thesis by (auto simp: findZone_def findZoneExpected_def AssertFatal_def)
next
  case False
  with assms obtain r where
    loop: "findZoneLoop env (queryZoneSpaces env (queryBox p) s) p
             (findObjectList env (queryBox p) (ZoneObjectType env)) = Some r"
    and res: "(case r of Some (ow, zn) \<Rightarrow> Some (queryZoneSpaces env (queryBox p) s, ow, zn)
              | None \<Rightarrow> Some (queryZoneSpaces env (queryBox p) s, getRootZone s, RootZoneId))
              = Some (s', owner, zone)"
    by (auto simp: findZone_def AssertFatal_def Let_def split: if_splits Option.bind_splits)
  from findZoneLoop_Some [OF loop] res False show ?thesis
    by (auto simp: findZoneExpected_def split: option.splits)
qed

lemma findZoneExpected_valid:
  "snd (findZoneExpected env s p) \<noteq> InvalidZoneId \<and>
   (fst (findZoneExpected env s p) = getRootZone s \<or>
    (fst (findZoneExpected env s p) \<in> set (findObjectList env (queryBox p) (ZoneObjectType env)) \<and>
     isSceneZoneSpace (objAt s (fst (findZoneExpected env s p)))))"
proof (cases "find (\<lambda>q. getPointZone env q p \<noteq> InvalidZoneId)
                      (zoneSpacesOf s (findObjectList env (queryBox p) (ZoneObjectType env)))")
  case None
  then show ?thesis by (simp add: findZoneExpected_def RootZoneId_def InvalidZoneId_def)
next
  case (Some q)
  then have "getPointZone env q p \<noteq> InvalidZoneId"
    and "q \<in> set (zoneSpacesOf s (findObjectList env (queryBox p) (ZoneObjectType env)))"
    by (auto simp: find_Some_iff)
  with Some show ?thesis
    by (auto simp: findZoneExpected_def RootZoneId_def InvalidZoneId_def zoneSpacesOf_def)
qed

text \<open>
  Claim C7. For every point, \<^verbatim>\<open>findZone\<close> returns a valid owner and zone. With
  exactly one active zone it returns the root zone and zone 0 at once, leaving the
  manager as it is; otherwise it returns the first zone space of the query whose
  \<^verbatim>\<open>getPointZone\<close> is not \<^verbatim>\<open>InvalidZoneId\<close>, with that zone, and the root zone
  with zone 0 when there is none. The zone is never \<^verbatim>\<open>InvalidZoneId\<close> and the owner
  is the root zone or a zone space found by the query. It does return when a zone
  is active and the query does not hand back the root zone (its two assertions).
\<close>

theorem findZone_never_invalid:
  "(1 \<le> mNumActiveZones s \<and>
    getRootZone s \<notin> set (zoneSpacesOf s (findObjectList env (queryBox p) (ZoneObjectType env)))
      \<longrightarrow> findZone env s p \<noteq> None) \<and>
   (\<forall>s' owner zone. findZone env s p = Some (s', owner, zone) \<longrightarrow>
      (owner, zone) = findZoneExpected env s p \<and>
      zone \<noteq> InvalidZoneId \<and>
      (owner = getRootZone s \<or>
       (owner \<in> set (findObjectList env (queryBox p) (ZoneObjectType env)) \<and>
        isSceneZoneSpace (objAt s owner))) \<and>
      (mNumActiveZones s = 1 \<longrightarrow> s' = s \<and> owner = getRootZone s \<and> zone = RootZoneId))"
proof (intro conjI allI impI)
  assume pre: "1 \<le> mNumActiveZones s \<and>
    getRootZone s \<notin> set (zoneSpacesOf s (findObjectList env (queryBox p) (ZoneObjectType env)))"
  then have "findZoneLoop env (queryZoneSpaces env (queryBox p) s) p
             (findObjectList env (queryBox p) (ZoneObjectType env)) \<noteq> None"
    by (intro findZoneLoop_total) simp
  with pre show "findZone env s p \<noteq> None"
    by (auto simp: findZone_def AssertFatal_def Let_def split: option.splits)
next
  fix s' owner zone
  assume r: "findZone env s p = Some (s', owner, zone)"
  from findZone_Some [OF r] show e: "(owner, zone) = findZoneExpected env s p" .
  from findZoneExpected_valid [of env s p] e show "zone \<noteq> InvalidZoneId"
    by (metis snd_conv)
  from findZoneExpected_valid [of env s p] e
  show "owner = getRootZone s \<or>
       (owner \<in> set (findObjectList env (queryBox p) (ZoneObjectType env)) \<and>
        isSceneZoneSpace (objAt s owner))"
    by (metis fst_conv)
  {
    assume one: "mNumActiveZones s = 1"
    with r show "s' = s" by (simp add: findZone_def AssertFatal_def)
    from one e show "owner = getRootZone s" by (simp add: findZoneExpected_def)
    from one e show "zone = RootZoneId" by (simp add: findZoneExpected_def)
  }
qed

theorem findZone_never_invalid_witness:
  "1 \<le> mNumActiveZones exScene \<and>
   findZone exEnv exScene \<lparr>ptX = 0, ptY = 0, ptZ = 0\<rparr> \<noteq> None \<and>
   map_option snd (findZone exEnv exScene \<lparr>ptX = 0, ptY = 0, ptZ = 0\<rparr>) = Some (2, 3)"
proof -
  have pre: "1 \<le> mNumActiveZones exScene \<and>
     getRootZone exScene \<notin> set (zoneSpacesOf exScene
        (findObjectList exEnv (queryBox \<lparr>ptX = 0, ptY = 0, ptZ = 0\<rparr>) (ZoneObjectType exEnv)))"
    by (simp add: zoneSpacesOf_def model_defs scene_defs eval_simps cong: eval_congs)
  from findZone_never_invalid [of exScene exEnv "\<lparr>ptX = 0, ptY = 0, ptZ = 0\<rparr>"] pre
  obtain s' owner zone where
    r: "findZone exEnv exScene \<lparr>ptX = 0, ptY = 0, ptZ = 0\<rparr> = Some (s', owner, zone)"
    and e: "(owner, zone) = findZoneExpected exEnv exScene \<lparr>ptX = 0, ptY = 0, ptZ = 0\<rparr>"
    by (cases "findZone exEnv exScene \<lparr>ptX = 0, ptY = 0, ptZ = 0\<rparr>") auto
  have "findZoneExpected exEnv exScene \<lparr>ptX = 0, ptY = 0, ptZ = 0\<rparr> = (2, 3)"
    by (simp add: findZoneExpected_def zoneSpacesOf_def model_defs scene_defs eval_simps
          cong: eval_congs)
  with pre r e show ?thesis by simp
qed

section \<open>Registering a plain object\<close>

text \<open>
  Claim C10. For every plain scene object (one without the \<^verbatim>\<open>ZoneObjectType\<close> bit,
  and not the root zone), \<^verbatim>\<open>registerObject\<close> returns, and all it does is append the
  object to \<^verbatim>\<open>mDirtyObjects\<close> and set its dirty flag; for an object whose flag is set
  already it does nothing. The membership table, the zone lists, and every object's
  handle and occupancy count are as before: zones are assigned by a later update
  pass.
\<close>

theorem registerObject_only_marks_dirty:
  assumes "object \<noteq> getRootZone s"
    and "mTypeMask (objAt s object) AND ZoneObjectType env = 0"
  shows "\<exists>s'. registerObject env object s = Some s' \<and>
           s' = (if mZoneRefDirty (objAt s object) then s
                 else updObj object (\<lambda>ob. ob\<lparr>mZoneRefDirty := True\<rparr>)
                        (s\<lparr>mDirtyObjects := mDirtyObjects s @ [object]\<rparr>)) \<and>
           membershipState s' = membershipState s \<and>
           mDirtyZoneSpaces s' = mDirtyZoneSpaces s"
  using assms
  by (simp add: registerObject_def notifyObjectChanged_def AssertFatal_def membershipState_def
        updObj_def objAt_def fun_eq_iff)

theorem registerObject_only_marks_dirty_witness:
  "10 \<noteq> getRootZone exScene \<and> mTypeMask (objAt exScene 10) AND ZoneObjectType exEnv = 0 \<and>
   map_option mDirtyObjects (registerObject exEnv 10 exScene) = Some [10] \<and>
   map_option (\<lambda>s'. mZoneRefDirty (objAt s' 10)) (registerObject exEnv 10 exScene) = Some True \<and>
   map_option membershipState (registerObject exEnv 10 exScene) = Some (membershipState exScene)"
proof -
  have pre: "10 \<noteq> getRootZone exScene" "mTypeMask (objAt exScene 10) AND ZoneObjectType exEnv = 0"
    and st: "mDirtyObjects exScene = []" "\<not> mZoneRefDirty (objAt exScene 10)"
    by (simp_all add: model_defs scene_defs eval_simps cong: eval_congs)
  from registerObject_only_marks_dirty [OF pre] st pre show ?thesis
    by (auto simp: updObj_def objAt_def)
qed

section \<open>The zone ID allocator: ranges, compaction and the root zone\<close>

lemma allocatorState_updObj:
  "mZoneRangeStart (f (heapObjects s p)) = mZoneRangeStart (heapObjects s p) \<Longrightarrow>
   mNumZones (f (heapObjects s p)) = mNumZones (heapObjects s p) \<Longrightarrow>
   allocatorState (updObj p f s) = allocatorState s"
  by (simp add: allocatorState_def zoneRange_def updObj_def objAt_def fun_eq_iff)

lemma allocatorState_heapLists [simp]: "allocatorState (s\<lparr>heapLists := h\<rparr>) = allocatorState s"
  by (simp add: allocatorState_def zoneRange_def objAt_def fun_eq_iff)

lemma allocatorState_pool [simp]: "allocatorState (s\<lparr>mZoneListPool := h\<rparr>) = allocatorState s"
  by (simp add: allocatorState_def zoneRange_def objAt_def fun_eq_iff)

lemma allocatorState_mZoneLists [simp]: "allocatorState (s\<lparr>mZoneLists := h\<rparr>) = allocatorState s"
  by (simp add: allocatorState_def zoneRange_def objAt_def fun_eq_iff)

lemma allocatorState_dirtyObjects [simp]: "allocatorState (s\<lparr>mDirtyObjects := h\<rparr>) = allocatorState s"
  by (simp add: allocatorState_def zoneRange_def objAt_def fun_eq_iff)

lemma allocatorState_dirtyZoneSpaces [simp]: "allocatorState (s\<lparr>mDirtyZoneSpaces := h\<rparr>) = allocatorState s"
  by (simp add: allocatorState_def zoneRange_def objAt_def fun_eq_iff)

lemma allocatorState_dirtyArea [simp]: "allocatorState (s\<lparr>mDirtyArea := h\<rparr>) = allocatorState s"
  by (simp add: allocatorState_def zoneRange_def objAt_def fun_eq_iff)

lemma allocatorState_table [simp]: "allocatorState (s\<lparr>mObjectZoneLists := h\<rparr>) = allocatorState s"
  by (simp add: allocatorState_def zoneRange_def objAt_def fun_eq_iff)

lemma allocatorState_onZoneRemoveObject [simp]:
  "allocatorState (onZoneRemoveObject owner object s) = allocatorState s"
  by (simp add: onZoneRemoveObject_def)

lemma mZoneLists_onZoneRemoveObject [simp]:
  "mZoneLists (onZoneRemoveObject owner object s) = mZoneLists s"
  by (simp add: onZoneRemoveObject_def)

lemma mZoneLists_updObj [simp]: "mZoneLists (updObj p f s) = mZoneLists s"
  by (simp add: updObj_def)

lemma clearZoneListLoop_frame:
  "clearZoneListLoop zoneSpace objects s = Some s' \<Longrightarrow>
     allocatorState s' = allocatorState s \<and> mZoneLists s' = mZoneLists s"
  by (induction objects arbitrary: s)
     (auto simp: Let_def allocatorState_updObj split: Option.bind_splits if_splits)

lemma clearZoneList_frame:
  "clearZoneList zoneId s = Some s' \<Longrightarrow>
     allocatorState s' = allocatorState s \<and> mZoneLists s' = mZoneLists s"
  by (auto simp: clearZoneList_def dest!: clearZoneListLoop_frame split: Option.bind_splits)

lemma freeZoneList_frame:
  "freeZoneList list s = Some s' \<Longrightarrow>
     allocatorState s' = allocatorState s \<and> mZoneLists s' = mZoneLists s"
  by (auto simp: freeZoneList_def Let_def split: Option.bind_splits)

lemma unregisterZoneLists_frame:
  "unregisterZoneLists js s = Some s' \<Longrightarrow>
     allocatorState s' = allocatorState s \<and> mZoneLists s' = mZoneLists s"
  by (induction js arbitrary: s)
     (auto dest!: clearZoneList_frame freeZoneList_frame split: Option.bind_splits)

lemma notifyObjectChanged_frame:
  "notifyObjectChanged env object s = Some s' \<Longrightarrow>
     allocatorState s' = allocatorState s \<and> mZoneLists s' = mZoneLists s"
  by (auto simp: notifyObjectChanged_def allocatorState_updObj split: Option.bind_splits if_splits)

lemma allocZoneList_frame:
  "allocZoneList sp s = Some (ret, s') \<Longrightarrow>
     allocatorState s' = allocatorState s \<and> mZoneLists s' = mZoneLists s"
  by (auto simp: allocZoneList_def Let_def split: Option.bind_splits if_splits)

lemma allocZoneLists_frame:
  "allocZoneLists is object s = Some s' \<Longrightarrow> allocatorState s' = allocatorState s"
  by (induction "is" arbitrary: s)
     (auto dest!: allocZoneList_frame split: Option.bind_splits prod.splits)

lemma replaceBins_frame:
  "\<exists>tbl. replaceBins obs oldZoneId newZoneId s = s\<lparr>mObjectZoneLists := tbl\<rparr>"
proof (induction obs arbitrary: s)
  case Nil
  have "s = s\<lparr>mObjectZoneLists := mObjectZoneLists s\<rparr>" by simp
  then show ?case by (metis replaceBins.simps(1))
next
  case (Cons ob obs)
  from Cons [of "s\<lparr>mObjectZoneLists :=
            replaceListBin (mZoneListHandle (objAt s ob)) oldZoneId newZoneId (mObjectZoneLists s)\<rparr>"]
  show ?case by auto
qed

lemma compactZoneLoop_frame:
  "compactZoneLoop ns oldStart newStart (nzl, s) = Some (nzl', s') \<Longrightarrow>
     \<exists>tbl. s' = s\<lparr>mObjectZoneLists := tbl\<rparr>"
proof (induction ns arbitrary: nzl s)
  case Nil
  have "s = s\<lparr>mObjectZoneLists := mObjectZoneLists s\<rparr>" by simp
  with Nil show ?case by (metis compactZoneLoop.simps(1) option.inject prod.inject)
next
  case (Cons n ns)
  from Cons.prems obtain moved nzl1 atNew where
    st: "vectorAt (mZoneLists s) (newStart + n) = Some atNew"
    and rec: "(case atNew of
        None \<Rightarrow> compactZoneLoop ns oldStart newStart (nzl1, s)
      | Some a \<Rightarrow> do {
          l \<leftarrow> vectorAt (heapLists s) a;
          compactZoneLoop ns oldStart newStart
            (nzl1, replaceBins (getObjects l) (oldStart + n) (newStart + n) s)
        }) = Some (nzl', s')"
    by (auto simp: Let_def split: Option.bind_splits)
  show ?case
  proof (cases atNew)
    case None
    with rec Cons.IH show ?thesis by simp
  next
    case (Some a)
    with rec obtain l :: ZoneObjectList where
      r2: "compactZoneLoop ns oldStart newStart
            (nzl1, replaceBins (getObjects l) (oldStart + n) (newStart + n) s) = Some (nzl', s')"
      by (auto split: Option.bind_splits)
    from replaceBins_frame obtain t1 where
      t1: "replaceBins (getObjects l) (oldStart + n) (newStart + n) s = s\<lparr>mObjectZoneLists := t1\<rparr>"
      by blast
    from Cons.IH [OF r2 [unfolded t1]] show ?thesis by auto
  qed
qed

lemma compactSpaces_ranges:
  "compactSpaces sps (next, nzl, s) = Some (next', nzl', s') \<Longrightarrow> distinct sps \<Longrightarrow>
     next' = next + sum_list (map (\<lambda>p. mNumZones (objAt s p)) sps) \<and>
     mRootZone s' = mRootZone s \<and> mZoneSpaces s' = mZoneSpaces s \<and>
     mNumTotalAllocatedZones s' = mNumTotalAllocatedZones s \<and>
     mNumActiveZones s' = mNumActiveZones s \<and>
     (\<forall>p. mNumZones (objAt s' p) = mNumZones (objAt s p)) \<and>
     (\<forall>p. p \<notin> set sps \<longrightarrow> mZoneRangeStart (objAt s' p) = mZoneRangeStart (objAt s p)) \<and>
     map (\<lambda>p. mZoneRangeStart (objAt s' p)) sps =
       assignStarts next (map (\<lambda>p. mNumZones (objAt s p)) sps)"
proof (induction sps arbitrary: "next" nzl s)
  case Nil
  then show ?case by simp
next
  case (Cons sp sps)
  define s1 where "s1 = updObj sp (\<lambda>ob. ob\<lparr>mZoneRangeStart := next\<rparr>) s"
  from Cons.prems(1) obtain nzl1 s2 where
    inner: "compactZoneLoop [0..<getZoneRange (objAt s sp)] (getZoneRangeStart (objAt s sp)) next (nzl, s1)
             = Some (nzl1, s2)"
    and rec: "compactSpaces sps (next + getZoneRange (objAt s sp), nzl1, s2) = Some (next', nzl', s')"
    by (auto simp: Let_def s1_def split: Option.bind_splits prod.splits)
  from compactZoneLoop_frame [OF inner] obtain tbl where s2: "s2 = s1\<lparr>mObjectZoneLists := tbl\<rparr>"
    by blast
  have obj2: "objAt s2 p = (if p = sp then (objAt s sp)\<lparr>mZoneRangeStart := next\<rparr> else objAt s p)" for p
    by (simp add: s2 s1_def updObj_def objAt_def)
  from Cons.prems(2) have d: "distinct sps" and nin: "sp \<notin> set sps" by simp_all
  note ih = Cons.IH [OF rec d]
  have nums: "map (\<lambda>p. mNumZones (objAt s2 p)) sps = map (\<lambda>p. mNumZones (objAt s p)) sps"
    by (simp add: obj2)
  from ih have n': "next' = next + mNumZones (objAt s sp) + sum_list (map (\<lambda>p. mNumZones (objAt s p)) sps)"
    by (simp add: nums getZoneRange_def)
  from ih have frame: "mRootZone s' = mRootZone s" "mZoneSpaces s' = mZoneSpaces s"
      "mNumTotalAllocatedZones s' = mNumTotalAllocatedZones s" "mNumActiveZones s' = mNumActiveZones s"
    by (simp_all add: s2 s1_def updObj_def)
  from ih have numz: "mNumZones (objAt s' p) = mNumZones (objAt s p)" for p
    by (simp add: obj2)
  from ih have other: "p \<notin> set (sp # sps) \<Longrightarrow> mZoneRangeStart (objAt s' p) = mZoneRangeStart (objAt s p)" for p
    by (simp add: obj2)
  from ih nin have first: "mZoneRangeStart (objAt s' sp) = next"
    by (simp add: obj2)
  from ih have rest: "map (\<lambda>p. mZoneRangeStart (objAt s' p)) sps =
       assignStarts (next + mNumZones (objAt s sp)) (map (\<lambda>p. mNumZones (objAt s p)) sps)"
    by (simp add: nums getZoneRange_def)
  from n' frame numz other first rest show ?case by simp
qed

lemma compactZones_ranges:
  assumes "compactZones s = Some s'" and "distinct (mZoneSpaces s)"
  shows "mRootZone s' = mRootZone s" and "mZoneSpaces s' = mZoneSpaces s"
    and "mNumActiveZones s' = mNumActiveZones s"
    and "mNumTotalAllocatedZones s' = mNumActiveZones s"
    and "mNumTotalAllocatedZones s' = sum_list (map (\<lambda>p. mNumZones (objAt s p)) (mZoneSpaces s))"
    and "\<And>p. mNumZones (objAt s' p) = mNumZones (objAt s p)"
    and "\<And>p. p \<notin> set (mZoneSpaces s) \<Longrightarrow> mZoneRangeStart (objAt s' p) = mZoneRangeStart (objAt s p)"
    and "map (\<lambda>p. mZoneRangeStart (objAt s' p)) (mZoneSpaces s) =
           assignStarts 0 (map (\<lambda>p. mNumZones (objAt s p)) (mZoneSpaces s))"
proof -
  from assms(1) obtain nxt nzl s1 where
    walk: "compactSpaces (mZoneSpaces s) (0, replicate (mNumActiveZones s) None, s) = Some (nxt, nzl, s1)"
    and s': "s' = s1\<lparr>mNumTotalAllocatedZones := nxt, mZoneLists := nzl\<rparr>"
    and eq: "nxt = mNumActiveZones s1"
    by (auto simp: compactZones_def Let_def AssertFatal_def split: Option.bind_splits prod.splits if_splits)
  note r = compactSpaces_ranges [OF walk assms(2)]
  from r s' eq show "mRootZone s' = mRootZone s" "mZoneSpaces s' = mZoneSpaces s"
    "mNumActiveZones s' = mNumActiveZones s" "mNumTotalAllocatedZones s' = mNumActiveZones s"
    "mNumTotalAllocatedZones s' = sum_list (map (\<lambda>p. mNumZones (objAt s p)) (mZoneSpaces s))"
    by simp_all
  from r s' show "\<And>p. mNumZones (objAt s' p) = mNumZones (objAt s p)"
    by (simp add: objAt_def)
  from r s' show "\<And>p. p \<notin> set (mZoneSpaces s) \<Longrightarrow> mZoneRangeStart (objAt s' p) = mZoneRangeStart (objAt s p)"
    by (simp add: objAt_def)
  from r s' show "map (\<lambda>p. mZoneRangeStart (objAt s' p)) (mZoneSpaces s) =
           assignStarts 0 (map (\<lambda>p. mNumZones (objAt s p)) (mZoneSpaces s))"
    by (simp add: objAt_def)
qed

lemma zoneSpaceIndexLoop_none: "zoneSpaceIndexLoop sps object i = - 1 \<longleftrightarrow> object \<notin> set sps"
  by (induction sps arbitrary: i) auto

lemma zoneSpaceIndexLoop_found:
  "object \<in> set sps \<Longrightarrow>
     \<exists>xs ys. sps = xs @ object # ys \<and> object \<notin> set xs \<and>
             zoneSpaceIndexLoop sps object i = int (i + length xs)"
proof (induction sps arbitrary: i)
  case Nil
  then show ?case by simp
next
  case (Cons sp sps)
  show ?case
  proof (cases "sp = object")
    case True
    then have "sp # sps = [] @ object # sps \<and> object \<notin> set [] \<and>
        zoneSpaceIndexLoop (sp # sps) object i = int (i + length ([] :: obj_ptr list))"
      by simp
    then show ?thesis by blast
  next
    case False
    with Cons.prems have "object \<in> set sps" by simp
    from Cons.IH [OF this, of "i + 1"] obtain xs ys where
      "sps = xs @ object # ys" "object \<notin> set xs"
      "zoneSpaceIndexLoop sps object (i + 1) = int (i + 1 + length xs)"
      by blast
    with False have "sp # sps = (sp # xs) @ object # ys \<and> object \<notin> set (sp # xs) \<and>
        zoneSpaceIndexLoop (sp # sps) object i = int (i + length (sp # xs))"
      by simp
    then show ?thesis by blast
  qed
qed

lemma vectorErase_index:
  assumes "getZoneSpaceIndex s object \<noteq> - 1"
  shows "\<exists>xs ys. mZoneSpaces s = xs @ object # ys \<and> object \<notin> set xs \<and>
           vectorErase (mZoneSpaces s) (nat (getZoneSpaceIndex s object)) = xs @ ys"
proof -
  from assms have "object \<in> set (mZoneSpaces s)"
    by (simp add: getZoneSpaceIndex_def zoneSpaceIndexLoop_none)
  from zoneSpaceIndexLoop_found [OF this, of 0] obtain xs ys where
    sp: "mZoneSpaces s = xs @ object # ys" and nin: "object \<notin> set xs"
    and ix: "getZoneSpaceIndex s object = int (length xs)"
    by (auto simp: getZoneSpaceIndex_def)
  have "vectorErase (mZoneSpaces s) (nat (getZoneSpaceIndex s object)) = xs @ ys"
    by (simp add: ix sp vectorErase_def)
  with sp nin show ?thesis by blast
qed

lemma compactZonesCheck_cases:
  "compactZonesCheck s = Some s1 \<Longrightarrow>
     (s1 = s \<and> \<not> 2 * mNumActiveZones s \<le> mNumTotalAllocatedZones s) \<or>
     (compactZones s = Some s1 \<and> 2 * mNumActiveZones s \<le> mNumTotalAllocatedZones s)"
  by (auto simp: compactZonesCheck_def split: if_splits)

lemma registerZones_allocatorState:
  assumes "registerZones env object numZones s = Some s'"
  shows "\<exists>s1. compactZonesCheck s = Some s1 \<and> object \<notin> set (mZoneSpaces s) \<and>
           allocatorState s' =
             (mRootZone s1, mZoneSpaces s1 @ [object], mNumTotalAllocatedZones s1 + numZones,
              mNumActiveZones s1 + numZones, (zoneRange s1)(object := (mNumTotalAllocatedZones s1, numZones)))"
proof -
  from assms obtain s1 s5 where
    idx: "getZoneSpaceIndex s object = - 1"
    and chk: "compactZonesCheck s = Some s1"
    and alloc: "allocZoneLists [mNumTotalAllocatedZones s1..<mNumTotalAllocatedZones s1 + numZones] object
            ((updObj object (\<lambda>ob. ob\<lparr>mNumZones := numZones, mZoneRangeStart := mNumTotalAllocatedZones s1\<rparr>)
               (s1\<lparr>mNumTotalAllocatedZones := mNumTotalAllocatedZones s1 + numZones,
                    mNumActiveZones := mNumActiveZones s1 + numZones\<rparr>))
              \<lparr>mZoneLists := mZoneLists s1 @ replicate numZones None\<rparr>) = Some s5"
    and fin: "(let s7 = updObj object (\<lambda>ob. ob\<lparr>mManagerSet := True,
                                      mTypeMask := mTypeMask ob OR ZoneObjectType env\<rparr>)
                          (s5\<lparr>mZoneSpaces := mZoneSpaces s5 @ [object]\<rparr>)
               in if \<not> isSceneRootZone (objAt s7 object)
                  then notifyObjectChanged env object (updObj object (\<lambda>ob. ob\<lparr>mZoneRefDirty := False\<rparr>) s7)
                  else Some s7) = Some s'"
    by (auto simp: registerZones_def Let_def AssertFatal_def updObj_def
             split: Option.bind_splits if_splits)
  define s4 where "s4 = (updObj object (\<lambda>ob. ob\<lparr>mNumZones := numZones, mZoneRangeStart := mNumTotalAllocatedZones s1\<rparr>)
               (s1\<lparr>mNumTotalAllocatedZones := mNumTotalAllocatedZones s1 + numZones,
                    mNumActiveZones := mNumActiveZones s1 + numZones\<rparr>))
              \<lparr>mZoneLists := mZoneLists s1 @ replicate numZones None\<rparr>"
  have a4: "allocatorState s4 = (mRootZone s1, mZoneSpaces s1, mNumTotalAllocatedZones s1 + numZones,
              mNumActiveZones s1 + numZones, (zoneRange s1)(object := (mNumTotalAllocatedZones s1, numZones)))"
    by (simp add: s4_def allocatorState_def zoneRange_def updObj_def objAt_def fun_eq_iff)
  from allocZoneLists_frame [OF alloc [folded s4_def]] have a5: "allocatorState s5 = allocatorState s4" .
  define s7 where "s7 = updObj object (\<lambda>ob. ob\<lparr>mManagerSet := True,
                                      mTypeMask := mTypeMask ob OR ZoneObjectType env\<rparr>)
                          (s5\<lparr>mZoneSpaces := mZoneSpaces s5 @ [object]\<rparr>)"
  have a7: "allocatorState s7 = (mRootZone s1, mZoneSpaces s1 @ [object], mNumTotalAllocatedZones s1 + numZones,
              mNumActiveZones s1 + numZones, (zoneRange s1)(object := (mNumTotalAllocatedZones s1, numZones)))"
    using a5 a4
    by (simp add: s7_def allocatorState_def zoneRange_def updObj_def objAt_def fun_eq_iff)
  have "allocatorState s' = allocatorState s7"
  proof (cases "isSceneRootZone (objAt s7 object)")
    case True
    with fin show ?thesis by (simp add: Let_def s7_def)
  next
    case False
    with fin have "notifyObjectChanged env object (updObj object (\<lambda>ob. ob\<lparr>mZoneRefDirty := False\<rparr>) s7) = Some s'"
      by (simp add: Let_def s7_def)
    from notifyObjectChanged_frame [OF this] show ?thesis
      by (simp add: allocatorState_updObj)
  qed
  with a7 chk idx show ?thesis
    by (auto simp: getZoneSpaceIndex_def zoneSpaceIndexLoop_none)
qed

lemma unregisterZones_allocatorState:
  assumes "unregisterZones env object s = Some s'"
  shows "getZoneSpaceIndex s object \<noteq> - 1 \<and> mNumZones (objAt s object) \<le> mNumActiveZones s \<and>
         mZoneLists s' = mZoneLists s \<and>
         allocatorState s' =
           (mRootZone s, vectorErase (mZoneSpaces s) (nat (getZoneSpaceIndex s object)),
            mNumTotalAllocatedZones s, mNumActiveZones s - mNumZones (objAt s object),
            (zoneRange s)(object := (InvalidZoneId, 0)))"
proof -
  from assms obtain s1 where
    idx: "getZoneSpaceIndex s object \<noteq> - 1"
    and act: "mNumZones (objAt s object) \<le> mNumActiveZones s"
    and lists: "unregisterZoneLists [mZoneRangeStart (objAt s object)..<mZoneRangeStart (objAt s object) + mNumZones (objAt s object)] s = Some s1"
    and s': "s' = (updObj object (\<lambda>ob. ob\<lparr>mTypeMask := mTypeMask ob AND NOT (ZoneObjectType env),
                                      mZoneRangeStart := InvalidZoneId,
                                      mNumZones := 0,
                                      mManagerSet := False\<rparr>)
                 (s1\<lparr>mNumActiveZones := mNumActiveZones s1 - mNumZones (objAt s object),
                 mZoneSpaces := vectorErase (mZoneSpaces s1) (nat (getZoneSpaceIndex s object))\<rparr>))
               \<lparr>mDirtyArea := Box3F_intersect env (mDirtyArea s1) (getWorldBox (objAt s1 object))\<rparr>"
    by (auto simp: unregisterZones_def Let_def AssertFatal_def getZoneRangeStart_def getZoneRange_def
                   updObj_def objAt_def
             split: Option.bind_splits if_splits)
  from unregisterZoneLists_frame [OF lists]
  have fr: "allocatorState s1 = allocatorState s" "mZoneLists s1 = mZoneLists s" by simp_all
  from fr have "allocatorState s' =
           (mRootZone s, vectorErase (mZoneSpaces s) (nat (getZoneSpaceIndex s object)),
            mNumTotalAllocatedZones s, mNumActiveZones s - mNumZones (objAt s object),
            (zoneRange s)(object := (InvalidZoneId, 0)))"
    by (simp add: s' allocatorState_def zoneRange_def updObj_def objAt_def fun_eq_iff)
  moreover from fr have "mZoneLists s' = mZoneLists s" by (simp add: s' updObj_def)
  ultimately show ?thesis using idx act by simp
qed

lemma rangesChain_mono: "rangesChain lo rs hi \<Longrightarrow> lo' \<le> lo \<Longrightarrow> rangesChain lo' rs hi"
  by (cases rs) auto

lemma rangesChain_sum_le: "rangesChain lo rs hi \<Longrightarrow> lo + sum_list (map snd rs) \<le> hi"
proof (induction rs arbitrary: lo)
  case Nil
  then show ?case by simp
next
  case (Cons r rs)
  then have "fst r + snd r + sum_list (map snd rs) \<le> hi" and "lo \<le> fst r" by auto
  then show ?case by simp
qed

lemma rangesChain_snoc:
  "rangesChain lo rs hi \<Longrightarrow> rangesChain lo (rs @ [(hi, n)]) (hi + n)"
  by (induction rs arbitrary: lo) auto

lemma rangesChain_remove:
  "rangesChain lo (xs @ r # ys) hi \<Longrightarrow> rangesChain lo (xs @ ys) hi"
proof (induction xs arbitrary: lo)
  case Nil
  then have "rangesChain (fst r + snd r) ys hi" and "lo \<le> fst r + snd r" by auto
  then show ?case using rangesChain_mono by simp
next
  case (Cons x xs)
  then show ?case by auto
qed

lemma rangesChain_assignStarts:
  "rangesChain lo (zip (assignStarts lo ns) ns) (lo + sum_list ns)"
proof (induction ns arbitrary: lo)
  case Nil
  then show ?case by simp
next
  case (Cons n ns)
  from Cons [of "lo + n"] show ?case by (simp add: add.assoc)
qed

lemma map_pair_zip: "map (\<lambda>p. (f p, g p)) xs = zip (map f xs) (map g xs)"
  by (induction xs) auto

lemma length_assignStarts [simp]: "length (assignStarts lo ns) = length ns"
  by (induction ns arbitrary: lo) auto

lemma rangesChain_within:
  "rangesChain lo (map f sps) hi \<Longrightarrow> p \<in> set sps \<Longrightarrow>
     lo \<le> fst (f p) \<and> fst (f p) + snd (f p) \<le> hi"
proof (induction sps arbitrary: lo)
  case Nil
  then show ?case by simp
next
  case (Cons sp sps)
  from Cons.prems(1) have lo: "lo \<le> fst (f sp)"
    and ch: "rangesChain (fst (f sp) + snd (f sp)) (map f sps) hi" by auto
  show ?case
  proof (cases "p = sp")
    case True
    with lo rangesChain_sum_le [OF ch] show ?thesis by simp
  next
    case False
    with Cons.prems(2) have "p \<in> set sps" by simp
    from Cons.IH [OF ch this] lo show ?thesis by simp
  qed
qed

lemma rangesChain_disjoint:
  "rangesChain lo (map f sps) hi \<Longrightarrow> distinct sps \<Longrightarrow> p \<in> set sps \<Longrightarrow> q \<in> set sps \<Longrightarrow>
     p \<noteq> q \<Longrightarrow>
     fst (f p) + snd (f p) \<le> fst (f q) \<or> fst (f q) + snd (f q) \<le> fst (f p)"
proof (induction sps arbitrary: lo)
  case Nil
  then show ?case by simp
next
  case (Cons sp sps)
  from Cons.prems(1) have ch: "rangesChain (fst (f sp) + snd (f sp)) (map f sps) hi" by auto
  from Cons.prems(2) have d: "distinct sps" by simp
  consider "p = sp" "q \<in> set sps" | "q = sp" "p \<in> set sps" | "p \<in> set sps" "q \<in> set sps"
    using Cons.prems(3,4,5) by auto
  then show ?case
  proof cases
    case 1
    from rangesChain_within [OF ch 1(2)] 1(1) show ?thesis by simp
  next
    case 2
    from rangesChain_within [OF ch 2(2)] 2(1) show ?thesis by simp
  next
    case 3
    from Cons.IH [OF ch d 3 Cons.prems(5)] show ?thesis .
  qed
qed

lemma rangesChain_cover:
  "rangesChain lo rs hi \<Longrightarrow> sum_list (map snd rs) = hi - lo \<Longrightarrow>
     (\<Union>r \<in> set rs. {fst r ..< fst r + snd r}) = {lo ..< hi}"
proof (induction rs arbitrary: lo)
  case Nil
  then show ?case by simp
next
  case (Cons r rs)
  from Cons.prems(1) have lo: "lo \<le> fst r" and ch: "rangesChain (fst r + snd r) rs hi" by auto
  from rangesChain_sum_le [OF ch] have le: "fst r + snd r + sum_list (map snd rs) \<le> hi" .
  from Cons.prems(2) have sum: "snd r + sum_list (map snd rs) = hi - lo" by simp
  from lo le sum have eq: "fst r = lo" by arith
  from le sum eq have "sum_list (map snd rs) = hi - (fst r + snd r)" by arith
  from Cons.IH [OF ch this]
  have "(\<Union>r \<in> set rs. {fst r ..< fst r + snd r}) = {fst r + snd r ..< hi}" .
  moreover from le eq have "{lo ..< lo + snd r} \<union> {lo + snd r ..< hi} = {lo ..< hi}" by auto
  ultimately show ?case using eq by simp
qed

lemma allocatorInv_init: "allocatorInv (newSceneZoneSpaceManager env heap rootZone)"
  by (simp add: allocatorInv_def ownerRanges_def newSceneZoneSpaceManager_def)

lemma allocatorInv_compactZonesCheck:
  assumes "compactZonesCheck s = Some s1" and "allocatorInv s"
  shows "allocatorInv s1" and "mZoneSpaces s1 = mZoneSpaces s" and "mRootZone s1 = mRootZone s"
proof -
  from compactZonesCheck_cases [OF assms(1)]
  have "allocatorInv s1 \<and> mZoneSpaces s1 = mZoneSpaces s \<and> mRootZone s1 = mRootZone s"
  proof
    assume "s1 = s \<and> \<not> 2 * mNumActiveZones s \<le> mNumTotalAllocatedZones s"
    with assms(2) show ?thesis by simp
  next
    assume c: "compactZones s = Some s1 \<and> 2 * mNumActiveZones s \<le> mNumTotalAllocatedZones s"
    from assms(2) have d: "distinct (mZoneSpaces s)" by (simp add: allocatorInv_def)
    note r = compactZones_ranges [OF conjunct1 [OF c] d]
    have rs: "ownerRanges s1 =
        zip (assignStarts 0 (map (\<lambda>p. mNumZones (objAt s p)) (mZoneSpaces s)))
            (map (\<lambda>p. mNumZones (objAt s p)) (mZoneSpaces s))"
      using r(2,6,8) by (simp add: ownerRanges_def zoneRange_def [abs_def] map_pair_zip)
    have "rangesChain 0 (ownerRanges s1) (mNumTotalAllocatedZones s1)"
      using rangesChain_assignStarts [of 0 "map (\<lambda>p. mNumZones (objAt s p)) (mZoneSpaces s)"]
      by (simp add: rs r(5))
    moreover have "mNumActiveZones s1 = sum_list (map snd (ownerRanges s1))"
      using r(3,4,5) by (simp add: rs)
    ultimately show ?thesis using r(1,2) d by (simp add: allocatorInv_def)
  qed
  then show "allocatorInv s1" and "mZoneSpaces s1 = mZoneSpaces s" and "mRootZone s1 = mRootZone s"
    by simp_all
qed

lemma allocatorInv_registerZones:
  assumes "registerZones env object numZones s = Some s'" and "allocatorInv s"
  shows "allocatorInv s'"
proof -
  from registerZones_allocatorState [OF assms(1)] obtain s1 where
    chk: "compactZonesCheck s = Some s1" and nin: "object \<notin> set (mZoneSpaces s)"
    and st: "allocatorState s' =
             (mRootZone s1, mZoneSpaces s1 @ [object], mNumTotalAllocatedZones s1 + numZones,
              mNumActiveZones s1 + numZones, (zoneRange s1)(object := (mNumTotalAllocatedZones s1, numZones)))"
    by blast
  note c = allocatorInv_compactZonesCheck [OF chk assms(2)]
  from nin c(2) have nin1: "object \<notin> set (mZoneSpaces s1)" by simp
  from st nin1 have rs: "ownerRanges s' = ownerRanges s1 @ [(mNumTotalAllocatedZones s1, numZones)]"
    by (simp add: allocatorState_def ownerRanges_def)
  from c(1) have ch1: "rangesChain 0 (ownerRanges s1) (mNumTotalAllocatedZones s1)"
    by (simp add: allocatorInv_def)
  have "rangesChain 0 (ownerRanges s') (mNumTotalAllocatedZones s1 + numZones)"
    unfolding rs by (rule rangesChain_snoc [OF ch1])
  with st c(1) nin1 show ?thesis
    by (simp add: allocatorInv_def allocatorState_def rs)
qed

lemma allocatorInv_unregisterZones:
  assumes "unregisterZones env object s = Some s'" and "allocatorInv s"
  shows "allocatorInv s'"
proof -
  note u = unregisterZones_allocatorState [OF assms(1)]
  from vectorErase_index [OF conjunct1 [OF u]] obtain xs ys where
    sp: "mZoneSpaces s = xs @ object # ys"
    and er: "vectorErase (mZoneSpaces s) (nat (getZoneSpaceIndex s object)) = xs @ ys"
    by blast
  from assms(2) sp have d: "distinct (xs @ object # ys)" by (simp add: allocatorInv_def)
  then have nin: "object \<notin> set (xs @ ys)" by auto
  from u er have st: "mZoneSpaces s' = xs @ ys" "mNumTotalAllocatedZones s' = mNumTotalAllocatedZones s"
    "mNumActiveZones s' = mNumActiveZones s - mNumZones (objAt s object)"
    "zoneRange s' = (zoneRange s)(object := (InvalidZoneId, 0))"
    by (simp_all add: allocatorState_def)
  from nin have rs: "ownerRanges s' = map (zoneRange s) xs @ map (zoneRange s) ys"
    using st(1,4) by (simp add: ownerRanges_def)
  have rs0: "ownerRanges s = map (zoneRange s) xs @ zoneRange s object # map (zoneRange s) ys"
    by (simp add: ownerRanges_def sp)
  from assms(2) have ch0: "rangesChain 0 (map (zoneRange s) xs @ zoneRange s object # map (zoneRange s) ys)
      (mNumTotalAllocatedZones s)"
    by (simp add: allocatorInv_def rs0)
  have "rangesChain 0 (ownerRanges s') (mNumTotalAllocatedZones s')"
    unfolding rs st(2) by (rule rangesChain_remove [OF ch0])
  moreover from assms(2) have "mNumActiveZones s' = sum_list (map snd (ownerRanges s'))"
    by (simp add: allocatorInv_def rs rs0 st(3) zoneRange_def)
  moreover from d st(1) have "distinct (mZoneSpaces s')" by auto
  ultimately show ?thesis by (simp add: allocatorInv_def)
qed

lemma allocatorInv_runOps:
  "runOps env zops s = Some s' \<Longrightarrow> allocatorInv s \<Longrightarrow> allocatorInv s'"
proof (induction zops arbitrary: s)
  case Nil
  then show ?case by simp
next
  case (Cons zop zops)
  from Cons.prems(1) obtain s1 where
    st: "applyOp env zop s = Some s1" and rest: "runOps env zops s1 = Some s'"
    by (auto split: Option.bind_splits)
  from st Cons.prems(2) have "allocatorInv s1"
    by (cases zop) (auto dest: allocatorInv_registerZones allocatorInv_unregisterZones)
  from Cons.IH [OF rest this] show ?case .
qed

lemma allocatorInv_disjoint:
  assumes "allocatorInv s" and "p \<in> set (mZoneSpaces s)" and "q \<in> set (mZoneSpaces s)" and "p \<noteq> q"
  shows "mZoneRangeStart (objAt s p) + mNumZones (objAt s p) \<le> mZoneRangeStart (objAt s q) \<or>
         mZoneRangeStart (objAt s q) + mNumZones (objAt s q) \<le> mZoneRangeStart (objAt s p)"
proof -
  from assms(1) have ch: "rangesChain 0 (map (zoneRange s) (mZoneSpaces s)) (mNumTotalAllocatedZones s)"
    and d: "distinct (mZoneSpaces s)"
    by (simp_all add: allocatorInv_def ownerRanges_def)
  from rangesChain_disjoint [OF ch d assms(2,3,4)] show ?thesis
    by (simp add: zoneRange_def)
qed

lemma allocatorInv_verifyState:
  assumes "allocatorInv s"
  shows "verifyStateNoOverlap s"
proof -
  from assms have d: "distinct (mZoneSpaces s)" by (simp add: allocatorInv_def)
  have "n = i \<or>
        mZoneRangeStart (objAt s (mZoneSpaces s ! n)) \<ge>
          mZoneRangeStart (objAt s (mZoneSpaces s ! i)) + mNumZones (objAt s (mZoneSpaces s ! i)) \<or>
        mZoneRangeStart (objAt s (mZoneSpaces s ! n)) + mNumZones (objAt s (mZoneSpaces s ! n))
          \<le> mZoneRangeStart (objAt s (mZoneSpaces s ! i))"
    if "i < length (mZoneSpaces s)" "n < length (mZoneSpaces s)" for i n
  proof (cases "n = i")
    case True
    then show ?thesis by simp
  next
    case False
    with that d have ne: "mZoneSpaces s ! i \<noteq> mZoneSpaces s ! n"
      by (simp add: nth_eq_iff_index_eq)
    from that have "mZoneSpaces s ! i \<in> set (mZoneSpaces s)" "mZoneSpaces s ! n \<in> set (mZoneSpaces s)"
      by simp_all
    from allocatorInv_disjoint [OF assms this ne] show ?thesis by blast
  qed
  then show ?thesis
    by (simp add: verifyStateNoOverlap_def list_all_iff Let_def getZoneRangeStart_def getZoneRange_def)
qed

lemma allocatorInv_within:
  assumes "allocatorInv s"
  shows "activeZoneIds s \<subseteq> {0 ..< mNumTotalAllocatedZones s}"
proof
  fix zn assume "zn \<in> activeZoneIds s"
  then obtain p where p: "p \<in> set (mZoneSpaces s)" and zn: "zn \<in> zoneIds s p"
    by (auto simp: activeZoneIds_def)
  from assms have ch: "rangesChain 0 (map (zoneRange s) (mZoneSpaces s)) (mNumTotalAllocatedZones s)"
    by (simp add: allocatorInv_def ownerRanges_def)
  from rangesChain_within [OF ch p] zn show "zn \<in> {0 ..< mNumTotalAllocatedZones s}"
    by (auto simp: zoneIds_def zoneRange_def)
qed

lemma allocatorInv_cover:
  assumes "allocatorInv s" and "mNumActiveZones s = mNumTotalAllocatedZones s"
  shows "activeZoneIds s = {0 ..< mNumTotalAllocatedZones s}"
proof -
  from assms(1) have ch: "rangesChain 0 (ownerRanges s) (mNumTotalAllocatedZones s)"
    and "mNumActiveZones s = sum_list (map snd (ownerRanges s))"
    by (simp_all add: allocatorInv_def)
  with assms(2) have sum: "sum_list (map snd (ownerRanges s)) = mNumTotalAllocatedZones s - 0"
    by simp
  from rangesChain_cover [OF ch sum] show ?thesis
    by (simp add: activeZoneIds_def zoneIds_def ownerRanges_def zoneRange_def)
qed

text \<open>
  Claim C3, as amended. After any sequence of \<^verbatim>\<open>registerZones\<close> and
  \<^verbatim>\<open>unregisterZones\<close> calls (each registration with its compaction check) on a new
  manager: the zone spaces of the list are distinct, the ID ranges of two different
  ones do not overlap (as sets, and in the form \<^verbatim>\<open>verifyState\<close> asserts), and every
  range lies in \<open>[0, totalAllocated)\<close>. The ranges cover all of \<open>[0, totalAllocated)\<close>
  when the active count equals the allocated count, as it does right after a
  compaction; after an unregistration the released IDs stay uncovered until then.
\<close>

theorem zone_ranges_disjoint_within_allocated:
  assumes "runOps env zops (newSceneZoneSpaceManager env heap rootZone) = Some s"
  shows "distinct (mZoneSpaces s) \<and>
         (\<forall>p \<in> set (mZoneSpaces s). \<forall>q \<in> set (mZoneSpaces s).
             p \<noteq> q \<longrightarrow> zoneIds s p \<inter> zoneIds s q = {}) \<and>
         verifyStateNoOverlap s \<and>
         activeZoneIds s \<subseteq> {0 ..< mNumTotalAllocatedZones s} \<and>
         (mNumActiveZones s = mNumTotalAllocatedZones s \<longrightarrow> rangesCoverAllocated s)"
proof -
  from allocatorInv_runOps [OF assms allocatorInv_init] have inv: "allocatorInv s" .
  have "zoneIds s p \<inter> zoneIds s q = {}"
    if "p \<in> set (mZoneSpaces s)" "q \<in> set (mZoneSpaces s)" "p \<noteq> q" for p q
    using allocatorInv_disjoint [OF inv that] by (auto simp: zoneIds_def)
  with inv allocatorInv_verifyState [OF inv] allocatorInv_within [OF inv] allocatorInv_cover [OF inv]
  show ?thesis by (simp add: allocatorInv_def rangesCoverAllocated_def)
qed

lemma exHoles_run:
  "runOps exEnv [RegisterZones 0 1, RegisterZones 1 2, RegisterZones 2 1, UnregisterZones 1] exManager
     = Some exHoles"
proof -
  have "runOps exEnv [RegisterZones 0 1, RegisterZones 1 2, RegisterZones 2 1, UnregisterZones 1] exManager
          \<noteq> None"
    by (simp add: model_defs scene_defs eval_simps cong: eval_congs)
  then show ?thesis by (auto simp: exHoles_def)
qed

lemma exHoles_values:
  "mZoneSpaces exHoles = [0, 2]" "mNumTotalAllocatedZones exHoles = 4" "mNumActiveZones exHoles = 2"
  "zoneRange exHoles 0 = (0, 1)" "zoneRange exHoles 2 = (3, 1)"
  by (simp_all add: exHoles_def zoneRange_def model_defs scene_defs eval_simps cong: eval_congs)

theorem zone_ranges_disjoint_within_allocated_witness:
  "runOps exEnv [RegisterZones 0 1, RegisterZones 1 2, RegisterZones 2 1, UnregisterZones 1] exManager
     = Some exHoles \<and>
   mZoneSpaces exHoles = [0, 2] \<and> zoneIds exHoles 0 = {0 ..< 1} \<and> zoneIds exHoles 2 = {3 ..< 4} \<and>
   zoneIds exHoles 0 \<inter> zoneIds exHoles 2 = {} \<and>
   activeZoneIds exHoles \<subseteq> {0 ..< 4}"
proof -
  note t = zone_ranges_disjoint_within_allocated [OF exHoles_run [unfolded exManager_def]]
  from exHoles_values have z: "zoneIds exHoles 0 = {0 ..< 1}" "zoneIds exHoles 2 = {3 ..< 4}"
    by (simp_all add: zoneIds_def zoneRange_def)
  from t exHoles_values have "zoneIds exHoles 0 \<inter> zoneIds exHoles 2 = {}"
    and "activeZoneIds exHoles \<subseteq> {0 ..< 4}"
    by simp_all
  with exHoles_run exHoles_values z show ?thesis by simp
qed

theorem ranges_cover_allocated_counterexample:
  "map_option rangesCoverAllocated
     (runOps exEnv [RegisterZones 0 1, RegisterZones 1 2, RegisterZones 2 1, UnregisterZones 1] exManager)
   = Some False"
proof -
  from exHoles_values have "activeZoneIds exHoles = {0 ..< 1} \<union> {3 ..< 4}"
    by (simp add: activeZoneIds_def zoneIds_def zoneRange_def)
  then have "1 \<notin> activeZoneIds exHoles" by simp
  moreover have "(1::nat) \<in> {0 ..< mNumTotalAllocatedZones exHoles}"
    by (simp add: exHoles_values)
  ultimately have "\<not> rangesCoverAllocated exHoles"
    unfolding rangesCoverAllocated_def by metis
  with exHoles_run show ?thesis by simp
qed

lemma rootFirst_compactZonesCheck:
  assumes "compactZonesCheck s = Some s1" and "rootFirst rootZone s"
  shows "rootFirst rootZone s1" and "mZoneSpaces s1 = mZoneSpaces s"
proof -
  from assms(2) have inv: "allocatorInv s" by (simp add: rootFirst_def)
  note c = allocatorInv_compactZonesCheck [OF assms(1) inv]
  show "mZoneSpaces s1 = mZoneSpaces s" by (rule c(2))
  from compactZonesCheck_cases [OF assms(1)] have "zoneRange s1 rootZone = (0, 1)"
  proof
    assume "s1 = s \<and> \<not> 2 * mNumActiveZones s \<le> mNumTotalAllocatedZones s"
    with assms(2) show ?thesis by (simp add: rootFirst_def)
  next
    assume cz: "compactZones s = Some s1 \<and> 2 * mNumActiveZones s \<le> mNumTotalAllocatedZones s"
    from inv have d: "distinct (mZoneSpaces s)" by (simp add: allocatorInv_def)
    note r = compactZones_ranges [OF conjunct1 [OF cz] d]
    from assms(2) obtain rest where sp: "mZoneSpaces s = rootZone # rest"
      by (cases "mZoneSpaces s") (auto simp: rootFirst_def)
    from r(8) have "mZoneRangeStart (objAt s1 rootZone) = 0" by (simp add: sp)
    moreover from r(6) assms(2) have "mNumZones (objAt s1 rootZone) = 1"
      by (simp add: rootFirst_def zoneRange_def)
    ultimately show ?thesis by (simp add: zoneRange_def)
  qed
  with c assms(2) show "rootFirst rootZone s1" by (simp add: rootFirst_def)
qed

lemma rootFirst_registerZones:
  assumes "registerZones env object numZones s = Some s'" and "rootFirst rootZone s"
    and "object \<noteq> rootZone"
  shows "rootFirst rootZone s'"
proof -
  from assms(2) have inv: "allocatorInv s" by (simp add: rootFirst_def)
  from registerZones_allocatorState [OF assms(1)] obtain s1 where
    chk: "compactZonesCheck s = Some s1"
    and st: "allocatorState s' =
             (mRootZone s1, mZoneSpaces s1 @ [object], mNumTotalAllocatedZones s1 + numZones,
              mNumActiveZones s1 + numZones, (zoneRange s1)(object := (mNumTotalAllocatedZones s1, numZones)))"
    by blast
  note c = rootFirst_compactZonesCheck [OF chk assms(2)]
  from st c(1) assms(3) allocatorInv_registerZones [OF assms(1) inv] show ?thesis
    by (simp add: rootFirst_def allocatorState_def)
qed

lemma rootFirst_unregisterZones:
  assumes "unregisterZones env object s = Some s'" and "rootFirst rootZone s"
    and "object \<noteq> rootZone"
  shows "rootFirst rootZone s'"
proof -
  from assms(2) have inv: "allocatorInv s" by (simp add: rootFirst_def)
  note u = unregisterZones_allocatorState [OF assms(1)]
  from vectorErase_index [OF conjunct1 [OF u]] obtain xs ys where
    sp: "mZoneSpaces s = xs @ object # ys"
    and er: "vectorErase (mZoneSpaces s) (nat (getZoneSpaceIndex s object)) = xs @ ys"
    by blast
  from assms(2,3) sp have "xs \<noteq> []" and "hd xs = rootZone"
    by (cases xs; simp add: rootFirst_def)+
  then have "xs @ ys \<noteq> []" and "hd (xs @ ys) = rootZone" by simp_all
  with u er assms(2,3) allocatorInv_unregisterZones [OF assms(1) inv] show ?thesis
    by (simp add: rootFirst_def allocatorState_def)
qed

lemma rootFirst_runOps:
  "runOps env zops s = Some s' \<Longrightarrow> rootFirst rootZone s \<Longrightarrow>
     \<forall>zop \<in> set zops. opObject zop \<noteq> rootZone \<Longrightarrow> rootFirst rootZone s'"
proof (induction zops arbitrary: s)
  case Nil
  then show ?case by simp
next
  case (Cons zop zops)
  from Cons.prems(1) obtain s1 where
    st: "applyOp env zop s = Some s1" and rest: "runOps env zops s1 = Some s'"
    by (auto split: Option.bind_splits)
  from Cons.prems(3) have ne: "opObject zop \<noteq> rootZone"
    and others: "\<forall>zop \<in> set zops. opObject zop \<noteq> rootZone" by simp_all
  from st ne Cons.prems(2) have "rootFirst rootZone s1"
    by (cases zop) (auto dest: rootFirst_registerZones rootFirst_unregisterZones)
  from Cons.IH [OF rest this others] show ?case .
qed

lemma rootFirst_first_registration:
  assumes "registerZones env rootZone 1 (newSceneZoneSpaceManager env heap rootZone) = Some s'"
  shows "rootFirst rootZone s'"
proof -
  let ?s0 = "newSceneZoneSpaceManager env heap rootZone"
  from registerZones_allocatorState [OF assms] obtain s1 where
    chk: "compactZonesCheck ?s0 = Some s1"
    and st: "allocatorState s' =
             (mRootZone s1, mZoneSpaces s1 @ [rootZone], mNumTotalAllocatedZones s1 + 1,
              mNumActiveZones s1 + 1, (zoneRange s1)(rootZone := (mNumTotalAllocatedZones s1, 1)))"
    by blast
  note c = allocatorInv_compactZonesCheck [OF chk allocatorInv_init]
  from c(2) have sp: "mZoneSpaces s1 = []" by (simp add: newSceneZoneSpaceManager_def)
  from c(3) have rt: "mRootZone s1 = rootZone" by (simp add: newSceneZoneSpaceManager_def)
  from c(1) sp have "mNumTotalAllocatedZones s1 = 0"
  proof -
    from compactZonesCheck_cases [OF chk] show ?thesis
    proof
      assume "s1 = ?s0 \<and> \<not> 2 * mNumActiveZones ?s0 \<le> mNumTotalAllocatedZones ?s0"
      then show ?thesis by (simp add: newSceneZoneSpaceManager_def)
    next
      assume cz: "compactZones ?s0 = Some s1 \<and> 2 * mNumActiveZones ?s0 \<le> mNumTotalAllocatedZones ?s0"
      have "distinct (mZoneSpaces ?s0)" by (simp add: newSceneZoneSpaceManager_def)
      from compactZones_ranges(4) [OF conjunct1 [OF cz] this] show ?thesis
        by (simp add: newSceneZoneSpaceManager_def)
    qed
  qed
  with st sp rt allocatorInv_registerZones [OF assms allocatorInv_init] show ?thesis
    by (simp add: rootFirst_def allocatorState_def)
qed

text \<open>
  Claim C2, as amended. The root zone is registered like every zone space and is in
  \<^verbatim>\<open>mZoneSpaces\<close>, the list that the compaction walks. Registered first with one zone,
  it stays the head of the list, so that a compaction gives it the range start 0
  again: after any further sequence of registrations and unregistrations of other
  zone spaces, with the compactions they trigger, the root zone has the range
  \<open>[0, 1)\<close>, that is exactly zone ID 0, and the two root assertions of \<^verbatim>\<open>verifyState\<close>
  hold.
\<close>

theorem root_zone_keeps_range:
  assumes "runOps env (RegisterZones rootZone 1 # zops) (newSceneZoneSpaceManager env heap rootZone) = Some s"
    and "\<forall>zop \<in> set zops. opObject zop \<noteq> rootZone"
  shows "getRootZone s = rootZone \<and> rootInOwnerList s \<and> hd (mZoneSpaces s) = rootZone \<and>
         zoneRange s rootZone = (0, 1) \<and> zoneIds s rootZone = {0} \<and> verifyStateRootZone s"
proof -
  from assms(1) obtain s1 where
    first: "registerZones env rootZone 1 (newSceneZoneSpaceManager env heap rootZone) = Some s1"
    and rest: "runOps env zops s1 = Some s"
    by (auto split: Option.bind_splits)
  from rootFirst_runOps [OF rest rootFirst_first_registration [OF first] assms(2)]
  have r: "rootFirst rootZone s" .
  then have "rootZone \<in> set (mZoneSpaces s)"
    by (cases "mZoneSpaces s") (auto simp: rootFirst_def)
  with r show ?thesis
    by (auto simp: rootFirst_def rootInOwnerList_def getRootZone_def zoneRange_def zoneIds_def
          verifyStateRootZone_def getZoneRangeStart_def getZoneRange_def)
qed

lemma exCompacted_run:
  "runOps exEnv (RegisterZones 0 1 # [RegisterZones 1 2, RegisterZones 2 1, UnregisterZones 1,
                                      RegisterZones 3 1]) exManager = Some exCompacted"
proof -
  have "runOps exEnv [RegisterZones 0 1, RegisterZones 1 2, RegisterZones 2 1, UnregisterZones 1,
                      RegisterZones 3 1] exManager \<noteq> None"
    by (simp add: model_defs scene_defs eval_simps cong: eval_congs)
  then show ?thesis by (auto simp: exCompacted_def)
qed

theorem root_zone_keeps_range_witness:
  "runOps exEnv (RegisterZones 0 1 # [RegisterZones 1 2, RegisterZones 2 1, UnregisterZones 1,
                                      RegisterZones 3 1]) exManager = Some exCompacted \<and>
   list_all (\<lambda>zop. opObject zop \<noteq> 0)
     [RegisterZones 1 2, RegisterZones 2 1, UnregisterZones 1, RegisterZones 3 1] \<and>
   mZoneSpaces exCompacted = [0, 2, 3] \<and>
   zoneRange exCompacted 0 = (0, 1) \<and> zoneRange exCompacted 2 = (1, 1) \<and>
   zoneRange exCompacted 3 = (2, 1) \<and> mNumTotalAllocatedZones exCompacted = 3"
proof -
  have others: "\<forall>zop \<in> set [RegisterZones 1 2, RegisterZones 2 1, UnregisterZones 1, RegisterZones 3 1].
                  opObject zop \<noteq> 0"
    by simp
  note t = root_zone_keeps_range [OF exCompacted_run [unfolded exManager_def] others]
  have "mZoneSpaces exCompacted = [0, 2, 3]" "zoneRange exCompacted 2 = (1, 1)"
    "zoneRange exCompacted 3 = (2, 1)" "mNumTotalAllocatedZones exCompacted = 3"
    by (simp_all add: exCompacted_def zoneRange_def model_defs scene_defs eval_simps cong: eval_congs)
  with t exCompacted_run show ?thesis by simp
qed

theorem root_excluded_from_walk_counterexample:
  "map_option rootInOwnerList (registerZones exEnv 0 1 exManager) = Some True \<and>
   map_option rootInOwnerList
     (runOps exEnv [RegisterZones 0 1, RegisterZones 1 2, RegisterZones 2 1, UnregisterZones 1] exManager)
     = Some True"
  by (simp add: rootInOwnerList_def model_defs scene_defs eval_simps cong: eval_congs)

text \<open>
  Claim C5. The compaction check compacts exactly when twice the active count is at
  most the allocated count, and leaves the manager as it is otherwise; it is run by
  \<^verbatim>\<open>registerZones\<close> before the new range is taken from the allocated count.
  \<^verbatim>\<open>unregisterZones\<close> never compacts: the allocated count, \<^verbatim>\<open>mZoneLists\<close> and the
  range of every other zone space are as before, only the active count drops, so the
  released IDs stay a hole until a later registration's check.
\<close>

theorem compaction_only_at_registration_check:
  "compactZonesCheck s =
     (if 2 * mNumActiveZones s \<le> mNumTotalAllocatedZones s then compactZones s else Some s) \<and>
   (\<forall>s'. unregisterZones env object s = Some s' \<longrightarrow>
      mNumTotalAllocatedZones s' = mNumTotalAllocatedZones s \<and> mZoneLists s' = mZoneLists s \<and>
      mNumActiveZones s' = mNumActiveZones s - mNumZones (objAt s object) \<and>
      (\<forall>p. p \<noteq> object \<longrightarrow> zoneRange s' p = zoneRange s p)) \<and>
   (\<forall>s' numZones. registerZones env object numZones s = Some s' \<longrightarrow>
      (\<exists>s1. compactZonesCheck s = Some s1 \<and>
            zoneRange s' object = (mNumTotalAllocatedZones s1, numZones)))"
proof (intro conjI allI impI)
  show "compactZonesCheck s =
     (if 2 * mNumActiveZones s \<le> mNumTotalAllocatedZones s then compactZones s else Some s)"
    by (auto simp: compactZonesCheck_def)
next
  fix s' assume u: "unregisterZones env object s = Some s'"
  note st = unregisterZones_allocatorState [OF u]
  from st show "mNumTotalAllocatedZones s' = mNumTotalAllocatedZones s"
    by (simp add: allocatorState_def)
  from st show "mZoneLists s' = mZoneLists s" by simp
  from st show "mNumActiveZones s' = mNumActiveZones s - mNumZones (objAt s object)"
    by (simp add: allocatorState_def)
  fix p assume "p \<noteq> object"
  with st show "zoneRange s' p = zoneRange s p"
    by (simp add: allocatorState_def)
next
  fix s' numZones assume r: "registerZones env object numZones s = Some s'"
  from registerZones_allocatorState [OF r]
  show "\<exists>s1. compactZonesCheck s = Some s1 \<and>
            zoneRange s' object = (mNumTotalAllocatedZones s1, numZones)"
    by (auto simp: allocatorState_def)
qed

theorem compaction_only_at_registration_check_witness:
  "unregisterZones exEnv 1 exScenarioC = Some exScenarioC' \<and>
   mNumActiveZones exScenarioC' = 10 \<and> mNumTotalAllocatedZones exScenarioC' = 22 \<and>
   zoneRange exScenarioC' 2 = (13, 9) \<and> zoneRange exScenarioC' 0 = (0, 1) \<and>
   mZoneLists exScenarioC' = mZoneLists exScenarioC \<and>
   compactZonesCheck exScenarioC' = compactZones exScenarioC' \<and>
   compactZonesCheck exScenarioC = Some exScenarioC"
proof -
  have "unregisterZones exEnv 1 exScenarioC \<noteq> None"
    by (simp add: exScenarioC_def model_defs scene_defs eval_simps cong: eval_congs)
  then have u: "unregisterZones exEnv 1 exScenarioC = Some exScenarioC'"
    by (auto simp: exScenarioC'_def)
  have before: "mNumActiveZones exScenarioC = 22" "mNumTotalAllocatedZones exScenarioC = 22"
    "mNumZones (objAt exScenarioC 1) = 12" "zoneRange exScenarioC 2 = (13, 9)"
    "zoneRange exScenarioC 0 = (0, 1)"
    by (simp_all add: exScenarioC_def zoneRange_def model_defs scene_defs eval_simps cong: eval_congs)
  note t = compaction_only_at_registration_check [of exScenarioC exEnv 1]
  note t' = compaction_only_at_registration_check [of exScenarioC' exEnv 1]
  from t u before have after: "mNumActiveZones exScenarioC' = 10"
    "mNumTotalAllocatedZones exScenarioC' = 22" "zoneRange exScenarioC' 2 = (13, 9)"
    "zoneRange exScenarioC' 0 = (0, 1)" "mZoneLists exScenarioC' = mZoneLists exScenarioC"
    by simp_all
  from t' after have "compactZonesCheck exScenarioC' = compactZones exScenarioC'" by simp
  moreover from t before have "compactZonesCheck exScenarioC = Some exScenarioC" by simp
  ultimately show ?thesis using u after by simp
qed

section \<open>Inserting an object into its zones and removing it\<close>

lemma min_taken_twice: "(a::nat) + min r k + min (r - min r k) m = a + min r (k + m)"
  by arith

lemma left_taken_twice: "(r::nat) - min r k - m = r - (k + m)"
  by arith

lemma temp_frame_refl: "\<exists>tz. s = s\<lparr>mTempObjectZones := tz\<rparr>"
  by (rule exI [of _ "mTempObjectZones s"]) simp

lemma zoneInsertLoop_result:
  "zoneInsertLoop env object qs (s, oi, ng, rem, gz) = Some (s', oi', ng', rem', gz') \<Longrightarrow>
     gz' = gz @ take rem (concat (map snd (ownerReports env s object qs))) \<and>
     ng' = ng + min rem (length (concat (map snd (ownerReports env s object qs)))) \<and>
     rem' = rem - length (concat (map snd (ownerReports env s object qs))) \<and>
     (oi' \<longleftrightarrow> oi \<and> list_all fst (ownerReports env s object qs)) \<and>
     (\<exists>tz. s' = s\<lparr>mTempObjectZones := tz\<rparr>)"
proof (induction qs arbitrary: s oi ng rem gz)
  case Nil
  then have "s' = s" "oi' = oi" "ng' = ng" "rem' = rem" "gz' = gz" by simp_all
  with temp_frame_refl [of s] show ?case by (simp add: ownerReports_def overlappingOwners_def)
next
  case (Cons q qs)
  show ?case
  proof (cases "isSceneZoneSpace (objAt s q) \<and> q \<noteq> object")
    case False
    with Cons.prems have "zoneInsertLoop env object qs (s, oi, ng, rem, gz) = Some (s', oi', ng', rem', gz')"
      by (auto simp: AssertFatal_def split: if_splits Option.bind_splits)
    from Cons.IH [OF this] False show ?thesis
      by (auto simp: ownerReports_def overlappingOwners_def)
  next
    case True
    obtain outside zones where rep: "getOverlappingZones env q object = (outside, zones)"
      by (cases "getOverlappingZones env q object")
    define s1 where "s1 = (if min rem (length zones) > 0
        then s\<lparr>mTempObjectZones := mTempObjectZones s @
                       [\<lparr>recSpace = q, recStartZone = ng, recNumZones = min rem (length zones)\<rparr>]\<rparr>
        else s)"
    from Cons.prems True rep have rec:
      "zoneInsertLoop env object qs
         (s1, oi \<and> outside, ng + min rem (length zones), rem - min rem (length zones),
          gz @ take (min rem (length zones)) zones) = Some (s', oi', ng', rem', gz')"
      by (auto simp: AssertFatal_def Let_def s1_def split: if_splits Option.bind_splits)
    have s1: "\<exists>tz. s1 = s\<lparr>mTempObjectZones := tz\<rparr>"
    proof (cases "min rem (length zones) > 0")
      case True
      then show ?thesis unfolding s1_def by auto
    next
      case False
      have "s = s\<lparr>mTempObjectZones := mTempObjectZones s\<rparr>" by simp
      with False show ?thesis unfolding s1_def by metis
    qed
    then obtain tz1 where s1': "s1 = s\<lparr>mTempObjectZones := tz1\<rparr>" by blast
    have reps1: "ownerReports env s1 object qs = ownerReports env s object qs"
      by (simp add: s1' ownerReports_def overlappingOwners_def objAt_def)
    have reps: "ownerReports env s object (q # qs) = (outside, zones) # ownerReports env s object qs"
      using True rep by (simp add: ownerReports_def overlappingOwners_def)
    note ih = Cons.IH [OF rec, unfolded reps1]
    let ?rest = "concat (map snd (ownerReports env s object qs))"
    let ?k = "min rem (length zones)"
    from ih have g: "gz' = (gz @ take ?k zones) @ take (rem - ?k) ?rest" by blast
    from ih have n: "ng' = ng + ?k + min (rem - ?k) (length ?rest)" by blast
    from ih have r: "rem' = rem - ?k - length ?rest" by blast
    from ih have o: "oi' \<longleftrightarrow> (oi \<and> outside) \<and> list_all fst (ownerReports env s object qs)" by blast
    from ih have f: "\<exists>tz. s' = s1\<lparr>mTempObjectZones := tz\<rparr>" by blast
    have t: "take ?k zones @ take (rem - ?k) ?rest = take rem (zones @ ?rest)"
      by (simp add: min_def)
    from g t have "gz' = gz @ take rem (zones @ ?rest)" by simp
    moreover from n have "ng' = ng + min rem (length (zones @ ?rest))"
      by (simp only: length_append min_taken_twice)
    moreover from r have "rem' = rem - length (zones @ ?rest)"
      by (simp only: length_append left_taken_twice)
    moreover from o have "oi' \<longleftrightarrow> oi \<and> outside \<and> list_all fst (ownerReports env s object qs)"
      by simp
    moreover from f s1' have "\<exists>tz. s' = s\<lparr>mTempObjectZones := tz\<rparr>"
      by auto
    ultimately show ?thesis by (simp add: reps)
  qed
qed

lemma setObjectZoneList_objectZones:
  assumes "setObjectZoneList object n zl s = Some s1" and "0 < n"
  shows "objectZones s1 object = Some (take n zl) \<and> mNumCurrZones (objAt s1 object) = n \<and>
         mZoneListHandle (objAt s1 object) \<noteq> 0"
proof (cases "mZoneListHandle (objAt s object) = 0")
  case True
  with assms show ?thesis
    by (auto simp: setObjectZoneList_def Let_def allocList_def objectZones_def getValues_def
          updObj_def objAt_def AssertFatal_def split: if_splits Option.bind_splits)
next
  case False
  with assms show ?thesis
    by (auto simp: setObjectZoneList_def Let_def reallocList_def objectZones_def getValues_def
          updObj_def objAt_def AssertFatal_def split: if_splits Option.bind_splits)
qed

lemma membershipOf_heapLists [simp]: "membershipOf (s\<lparr>heapLists := h\<rparr>) p = membershipOf s p"
  by (simp add: membershipOf_def objectZones_def objAt_def)

lemma membershipOf_temp [simp]: "membershipOf (s\<lparr>mTempObjectZones := h\<rparr>) p = membershipOf s p"
  by (simp add: membershipOf_def objectZones_def objAt_def)

lemma membershipOf_query [simp]: "membershipOf (queryZoneSpaces env area s) p = membershipOf s p"
  by (simp add: membershipOf_def objectZones_def objAt_def queryZoneSpaces_def)

lemma membershipOf_dirty [simp]:
  "membershipOf (updObj q (\<lambda>ob. ob\<lparr>mZoneRefDirty := b\<rparr>) s) p = membershipOf s p"
  by (simp add: membershipOf_def objectZones_def objAt_def updObj_def)

lemma onZoneAddObject_membershipOf:
  "onZoneAddObject owner object zids s = Some s' \<Longrightarrow> membershipOf s' p = membershipOf s p"
  by (induction zids arbitrary: s) (auto split: Option.bind_splits)

lemma zoneInsertNotify_membershipOf:
  "zoneInsertNotify rs object gz s = Some s' \<Longrightarrow> membershipOf s' p = membershipOf s p"
  by (induction rs arbitrary: s)
     (auto dest: onZoneAddObject_membershipOf split: Option.bind_splits if_splits)

lemma insertedZones_nonempty:
  assumes "0 < maxZones" and "\<forall>r \<in> set reports. snd r \<noteq> [] \<or> fst r"
  shows "insertedZones maxZones reports \<noteq> []"
proof (cases "list_all fst reports \<and> length (concat (map snd reports)) < maxZones")
  case True
  then show ?thesis by (simp add: insertedZones_def)
next
  case False
  have "concat (map snd reports) \<noteq> []"
  proof (cases "list_all fst reports")
    case True
    with False have "maxZones \<le> length (concat (map snd reports))" by simp
    with assms(1) have "length (concat (map snd reports)) \<noteq> 0" by arith
    then show ?thesis by (metis list.size(3))
  next
    case False
    then obtain r where "r \<in> set reports" "\<not> fst r" by (auto simp: list_all_iff)
    with assms(2) have "r \<in> set reports" "snd r \<noteq> []" by auto
    then show ?thesis by auto
  qed
  with assms(1) show ?thesis by (simp add: insertedZones_def)
qed

lemma ownerReports_frame:
  "heapObjects s1 = heapObjects s \<Longrightarrow> ownerReports env s1 object qs = ownerReports env s object qs"
  by (simp add: ownerReports_def overlappingOwners_def objAt_def)

lemma zoneInsert_unfold:
  "zoneInsert env object qi s = do {
     AssertFatal (mNumCurrZones (objAt s object) = 0);
     AssertFatal (hasContainer (objAt s object));
     AssertFatal (\<not> isSceneRootZone (objAt s object));
     (s1, oi, ng, rem, gz) \<leftarrow>
       (if \<not> outsideOnly env s object
        then zoneInsertLoop env object
               (mZoneSpacesQueryList (if \<not> qi then queryZoneSpaces env (getWorldBox (objAt (s\<lparr>mTempObjectZones := []\<rparr>) object)) (s\<lparr>mTempObjectZones := []\<rparr>) else s\<lparr>mTempObjectZones := []\<rparr>))
               (if \<not> qi then queryZoneSpaces env (getWorldBox (objAt (s\<lparr>mTempObjectZones := []\<rparr>) object)) (s\<lparr>mTempObjectZones := []\<rparr>) else s\<lparr>mTempObjectZones := []\<rparr>,
                True, 0, MaxObjectZones env, [])
        else Some (s\<lparr>mTempObjectZones := []\<rparr>, True, 0, MaxObjectZones env, []));
     (s2, ng2, gz2) \<leftarrow>
       (if outsideOnly env s object \<or> (oi \<and> rem > 0)
        then do {
          AssertFatal (ng < MaxObjectZones env);
          Some (s1\<lparr>mTempObjectZones := mTempObjectZones s1 @
                      [\<lparr>recSpace = getRootZone s1, recStartZone = ng, recNumZones = 1\<rparr>]\<rparr>,
                ng + 1, gz @ [RootZoneId])
        }
        else Some (s1, ng, gz));
     s3 \<leftarrow> (if ng2 > 0 then setObjectZoneList object ng2 gz2 s2 else Some s2);
     s4 \<leftarrow> zoneInsertNotify (mTempObjectZones s3) object gz2 s3;
     Some (updObj object (\<lambda>ob. ob\<lparr>mZoneRefDirty := False\<rparr>) s4)
   }"
  unfolding zoneInsert_def Let_def outsideOnly_def ..

lemma zoneInsert_collected:
  assumes "zoneInsert env object qi s = Some s'"
  shows "\<exists>s2 s3 s4. membershipOf s2 object = membershipOf s object \<and>
           (if zoneInsertFinal env s object qi \<noteq> []
            then setObjectZoneList object (length (zoneInsertFinal env s object qi))
                   (zoneInsertFinal env s object qi) s2 = Some s3
            else s3 = s2) \<and>
           zoneInsertNotify (mTempObjectZones s3) object (zoneInsertFinal env s object qi) s3 = Some s4 \<and>
           s' = updObj object (\<lambda>ob. ob\<lparr>mZoneRefDirty := False\<rparr>) s4"
proof -
  let ?M = "MaxObjectZones env"
  let ?s0 = "s\<lparr>mTempObjectZones := []\<rparr>"
  let ?sq = "if \<not> qi then queryZoneSpaces env (getWorldBox (objAt ?s0 object)) ?s0 else ?s0"
  from assms obtain s1 oi ng rem gz s2 ng2 gz2 s3 s4 where
    loop: "(if \<not> outsideOnly env s object
            then zoneInsertLoop env object (mZoneSpacesQueryList ?sq) (?sq, True, 0, ?M, [])
            else Some (?s0, True, 0, ?M, [])) = Some (s1, oi, ng, rem, gz)"
    and root: "(if outsideOnly env s object \<or> (oi \<and> rem > 0)
        then do {
          AssertFatal (ng < ?M);
          Some (s1\<lparr>mTempObjectZones := mTempObjectZones s1 @
                      [\<lparr>recSpace = getRootZone s1, recStartZone = ng, recNumZones = 1\<rparr>]\<rparr>,
                ng + 1, gz @ [RootZoneId])
        }
        else Some (s1, ng, gz)) = Some (s2, ng2, gz2)"
    and set: "(if ng2 > 0 then setObjectZoneList object ng2 gz2 s2 else Some s2) = Some s3"
    and notify: "zoneInsertNotify (mTempObjectZones s3) object gz2 s3 = Some s4"
    and s': "s' = updObj object (\<lambda>ob. ob\<lparr>mZoneRefDirty := False\<rparr>) s4"
    unfolding zoneInsert_unfold
    by (auto simp: bind_eq_Some_conv split: prod.splits)
  have m1: "membershipOf s1 object = membershipOf s object"
    and acc: "if outsideOnly env s object then oi \<and> ng = 0 \<and> rem = ?M \<and> gz = []
              else gz = take ?M (concat (map snd (ownerReports env s object (insertQuery env s object qi)))) \<and>
                   ng = min ?M (length (concat (map snd (ownerReports env s object (insertQuery env s object qi))))) \<and>
                   rem = ?M - length (concat (map snd (ownerReports env s object (insertQuery env s object qi)))) \<and>
                   (oi \<longleftrightarrow> list_all fst (ownerReports env s object (insertQuery env s object qi)))"
  proof -
    show "membershipOf s1 object = membershipOf s object"
    proof (cases "outsideOnly env s object")
      case True
      with loop show ?thesis by auto
    next
      case False
      with loop have "zoneInsertLoop env object (mZoneSpacesQueryList ?sq) (?sq, True, 0, ?M, [])
          = Some (s1, oi, ng, rem, gz)" by simp
      from zoneInsertLoop_result [OF this] obtain tz where "s1 = ?sq\<lparr>mTempObjectZones := tz\<rparr>"
        by blast
      then show ?thesis by (cases qi) simp_all
    qed
    show "if outsideOnly env s object then oi \<and> ng = 0 \<and> rem = ?M \<and> gz = []
              else gz = take ?M (concat (map snd (ownerReports env s object (insertQuery env s object qi)))) \<and>
                   ng = min ?M (length (concat (map snd (ownerReports env s object (insertQuery env s object qi))))) \<and>
                   rem = ?M - length (concat (map snd (ownerReports env s object (insertQuery env s object qi)))) \<and>
                   (oi \<longleftrightarrow> list_all fst (ownerReports env s object (insertQuery env s object qi)))"
    proof (cases "outsideOnly env s object")
      case True
      with loop show ?thesis by auto
    next
      case False
      with loop have l: "zoneInsertLoop env object (mZoneSpacesQueryList ?sq) (?sq, True, 0, ?M, [])
          = Some (s1, oi, ng, rem, gz)" by simp
      have q: "mZoneSpacesQueryList ?sq = insertQuery env s object qi"
        by (simp add: insertQuery_def queryZoneSpaces_def objAt_def)
      have h: "heapObjects ?sq = heapObjects s" by (simp add: queryZoneSpaces_def)
      from zoneInsertLoop_result [OF l] False show ?thesis
        by (simp add: q ownerReports_frame [OF h])
    qed
  qed
  have fin: "gz2 = zoneInsertFinal env s object qi \<and> ng2 = length gz2 \<and>
             membershipOf s2 object = membershipOf s object"
  proof (cases "outsideOnly env s object")
    case True
    with acc root m1 show ?thesis
      by (auto simp: zoneInsertFinal_def AssertFatal_def split: if_splits Option.bind_splits)
  next
    case False
    let ?ids = "concat (map snd (ownerReports env s object (insertQuery env s object qi)))"
    from False acc have a: "gz = take ?M ?ids" "ng = min ?M (length ?ids)" "rem = ?M - length ?ids"
      "oi \<longleftrightarrow> list_all fst (ownerReports env s object (insertQuery env s object qi))"
      by simp_all
    show ?thesis
    proof (cases "oi \<and> rem > 0")
      case True
      with a have lt: "length ?ids < ?M" by simp
      with True False root a m1 show ?thesis
        by (auto simp: zoneInsertFinal_def insertedZones_def AssertFatal_def
                 split: if_splits Option.bind_splits)
    next
      case nr: False
      with False root have r: "s2 = s1" "ng2 = ng" "gz2 = gz" by auto
      from nr a have "\<not> (list_all fst (ownerReports env s object (insertQuery env s object qi)) \<and>
                        length ?ids < ?M)" by auto
      with False r a m1 show ?thesis
        by (simp add: zoneInsertFinal_def insertedZones_def)
    qed
  qed
  from fin set have "if zoneInsertFinal env s object qi \<noteq> []
            then setObjectZoneList object (length (zoneInsertFinal env s object qi))
                   (zoneInsertFinal env s object qi) s2 = Some s3
            else s3 = s2"
    by (auto split: if_splits)
  with fin notify s' show ?thesis by blast
qed

lemma zoneInsert_membership:
  assumes "zoneInsert env object qi s = Some s'"
  shows "zoneInsertFinal env s object qi \<noteq> [] \<Longrightarrow>
           objectZones s' object = Some (zoneInsertFinal env s object qi) \<and>
           mNumCurrZones (objAt s' object) = length (zoneInsertFinal env s object qi) \<and>
           mZoneListHandle (objAt s' object) \<noteq> 0"
    and "zoneInsertFinal env s object qi = [] \<Longrightarrow> membershipOf s' object = membershipOf s object"
proof -
  from zoneInsert_collected [OF assms] obtain s2 s3 s4 where
    m2: "membershipOf s2 object = membershipOf s object"
    and set: "if zoneInsertFinal env s object qi \<noteq> []
            then setObjectZoneList object (length (zoneInsertFinal env s object qi))
                   (zoneInsertFinal env s object qi) s2 = Some s3
            else s3 = s2"
    and notify: "zoneInsertNotify (mTempObjectZones s3) object (zoneInsertFinal env s object qi) s3 = Some s4"
    and s': "s' = updObj object (\<lambda>ob. ob\<lparr>mZoneRefDirty := False\<rparr>) s4"
    by blast
  from zoneInsertNotify_membershipOf [OF notify] s'
  have m': "membershipOf s' object = membershipOf s3 object" by simp
  {
    assume ne: "zoneInsertFinal env s object qi \<noteq> []"
    with set have "setObjectZoneList object (length (zoneInsertFinal env s object qi))
                   (zoneInsertFinal env s object qi) s2 = Some s3" by simp
    from setObjectZoneList_objectZones [OF this] ne m'
    show "objectZones s' object = Some (zoneInsertFinal env s object qi) \<and>
           mNumCurrZones (objAt s' object) = length (zoneInsertFinal env s object qi) \<and>
           mZoneListHandle (objAt s' object) \<noteq> 0"
      by (simp add: membershipOf_def)
  }
  {
    assume "zoneInsertFinal env s object qi = []"
    with set m2 m' show "membershipOf s' object = membershipOf s object" by simp
  }
qed

lemma zoneInsertLoop_asserted:
  "zoneInsertLoop env object qs (s, acc) = Some r \<Longrightarrow>
     \<forall>rep \<in> set (ownerReports env s object qs). snd rep \<noteq> [] \<or> fst rep"
proof (induction qs arbitrary: s acc)
  case Nil
  then show ?case by (simp add: ownerReports_def overlappingOwners_def)
next
  case (Cons q qs)
  obtain oi ng rem gz where acc: "acc = (oi, ng, rem, gz)" by (cases acc)
  show ?case
  proof (cases "isSceneZoneSpace (objAt s q) \<and> q \<noteq> object")
    case False
    with Cons.prems have "zoneInsertLoop env object qs (s, acc) = Some r"
      by (auto simp: acc AssertFatal_def split: if_splits Option.bind_splits)
    from Cons.IH [OF this] False show ?thesis
      by (auto simp: ownerReports_def overlappingOwners_def)
  next
    case True
    obtain outside zones where rep: "getOverlappingZones env q object = (outside, zones)"
      by (cases "getOverlappingZones env q object")
    from Cons.prems True rep have ok: "zones \<noteq> [] \<or> outside"
      by (auto simp: acc AssertFatal_def split: if_splits Option.bind_splits)
    from Cons.prems True rep obtain s1 acc1 where
      rec: "zoneInsertLoop env object qs (s1, acc1) = Some r"
      and s1: "heapObjects s1 = heapObjects s"
      by (auto simp: acc AssertFatal_def Let_def split: if_splits Option.bind_splits)
    from Cons.IH [OF rec] have "\<forall>rep \<in> set (ownerReports env s object qs). snd rep \<noteq> [] \<or> fst rep"
      by (simp add: ownerReports_frame [OF s1])
    with ok True rep show ?thesis
      by (auto simp: ownerReports_def overlappingOwners_def)
  qed
qed

lemma zoneInsert_asserted:
  assumes "zoneInsert env object qi s = Some s'" and "\<not> outsideOnly env s object"
  shows "\<forall>rep \<in> set (ownerReports env s object (insertQuery env s object qi)). snd rep \<noteq> [] \<or> fst rep"
proof -
  let ?s0 = "s\<lparr>mTempObjectZones := []\<rparr>"
  let ?sq = "if \<not> qi then queryZoneSpaces env (getWorldBox (objAt ?s0 object)) ?s0 else ?s0"
  from assms obtain r where
    l: "zoneInsertLoop env object (mZoneSpacesQueryList ?sq) (?sq, True, 0, MaxObjectZones env, []) = Some r"
    unfolding zoneInsert_unfold by (auto simp: bind_eq_Some_conv split: prod.splits)
  have q: "mZoneSpacesQueryList ?sq = insertQuery env s object qi"
    by (simp add: insertQuery_def queryZoneSpaces_def objAt_def)
  have h: "heapObjects ?sq = heapObjects s" by (simp add: queryZoneSpaces_def)
  from zoneInsertLoop_asserted [OF l] show ?thesis
    by (simp add: q ownerReports_frame [OF h])
qed

lemma zoneInsertFinal_nonempty:
  assumes "zoneInsert env object qi s = Some s'" and "0 < MaxObjectZones env"
  shows "zoneInsertFinal env s object qi \<noteq> []"
proof (cases "outsideOnly env s object")
  case True
  then show ?thesis by (simp add: zoneInsertFinal_def)
next
  case False
  from insertedZones_nonempty [OF assms(2) zoneInsert_asserted [OF assms(1) False]] False
  show ?thesis by (simp add: zoneInsertFinal_def)
qed

text \<open>
  Claim C4, as amended. For an object that is not forced outdoor-only, a returning
  \<^verbatim>\<open>_zoneInsert\<close> leaves in the membership table the zone IDs reported by the
  overlapping zone spaces, in query order and cut at \<^verbatim>\<open>MaxObjectZones\<close>, followed by
  the root zone ID exactly when every overlapping zone space reported an overlap with
  the outside (or none was found) and fewer than \<^verbatim>\<open>MaxObjectZones\<close> IDs were
  reported; the occupancy count is the length of that list. When some zone space
  reports no overlap with the outside, as with two owners of which only one does, the
  membership is the reported zones (up to \<^verbatim>\<open>MaxObjectZones\<close>) and no root zone ID is
  added.
\<close>

theorem zoneInsert_membership_with_capacity:
  assumes "zoneInsert env object queryListInitialized s = Some s'"
    and "\<not> outsideOnly env s object"
    and "0 < MaxObjectZones env"
  shows "objectZones s' object =
           Some (insertedZones (MaxObjectZones env)
                   (ownerReports env s object (insertQuery env s object queryListInitialized))) \<and>
         mNumCurrZones (objAt s' object) =
           length (insertedZones (MaxObjectZones env)
                   (ownerReports env s object (insertQuery env s object queryListInitialized))) \<and>
         (\<not> everyOwnerOutside env s object queryListInitialized \<longrightarrow>
            objectZones s' object =
              Some (take (MaxObjectZones env)
                      (concat (map snd (ownerReports env s object
                                          (insertQuery env s object queryListInitialized))))))"
proof -
  from zoneInsert_membership(1) [OF assms(1) zoneInsertFinal_nonempty [OF assms(1,3)]] assms(2)
  show ?thesis
    by (simp add: zoneInsertFinal_def insertedZones_def everyOwnerOutside_def)
qed

lemmas insert_defs = zoneInsert_def setObjectZoneList_def allocList_def reallocList_def freeList_def
  getValues_def zoneRemove_def outsideOnly_def objectZones_def ownerReports_def overlappingOwners_def
  insertQuery_def insertedZones_def

lemma exInserted_run: "zoneInsert exEnv 10 False exScene = Some exInserted"
proof -
  have "zoneInsert exEnv 10 False exScene \<noteq> None"
    by (simp add: insert_defs model_defs scene_defs eval_simps cong: eval_congs)
  then show ?thesis by (auto simp: exInserted_def)
qed

theorem zoneInsert_membership_with_capacity_witness:
  "zoneInsert exEnv 10 False exScene = Some exInserted \<and>
   \<not> outsideOnly exEnv exScene 10 \<and> 0 < MaxObjectZones exEnv \<and>
   ownerReports exEnv exScene 10 (insertQuery exEnv exScene 10 False) = [(False, [1, 2]), (True, [3])] \<and>
   objectZones exInserted 10 = Some [1, 2, 3] \<and> mNumCurrZones (objAt exInserted 10) = 3 \<and>
   \<not> rootIncluded 10 exInserted"
proof -
  have pre: "\<not> outsideOnly exEnv exScene 10" "0 < MaxObjectZones exEnv"
    and reps: "ownerReports exEnv exScene 10 (insertQuery exEnv exScene 10 False) = [(False, [1, 2]), (True, [3])]"
    by (simp_all add: insert_defs model_defs scene_defs eval_simps cong: eval_congs)
  note t = zoneInsert_membership_with_capacity [OF exInserted_run pre]
  from t reps have z: "objectZones exInserted 10 = Some [1, 2, 3]" "mNumCurrZones (objAt exInserted 10) = 3"
    by (simp_all add: insertedZones_def exEnv_def)
  then have "\<not> rootIncluded 10 exInserted" by (simp add: rootIncluded_def RootZoneId_def)
  with exInserted_run pre reps z show ?thesis by simp
qed

theorem outside_iff_all_owners_counterexample:
  "\<not> outsideOnly exEnvSmall exScene 10 \<and> everyOwnerOutside exEnvSmall exScene 10 False \<and>
   map_option (rootIncluded 10) (zoneInsert exEnvSmall 10 False exScene) = Some False"
  by (simp add: rootIncluded_def everyOwnerOutside_def exEnvSmall_def insert_defs model_defs scene_defs
        eval_simps cong: eval_congs)

lemma zoneRemoveLoop_frame:
  "zoneRemoveLoop zids obj s = Some s1 \<Longrightarrow> \<exists>hl. s1 = s\<lparr>heapLists := hl\<rparr>"
proof (induction zids arbitrary: s)
  case Nil
  then have "s1 = s\<lparr>heapLists := heapLists s\<rparr>" by simp
  then show ?case by blast
next
  case (Cons zid zids)
  from Cons.prems obtain sp where
    "zoneRemoveLoop zids obj (onZoneRemoveObject sp obj s) = Some s1"
    by (auto split: Option.bind_splits)
  from Cons.IH [OF this] show ?case by (auto simp: onZoneRemoveObject_def)
qed

lemma zoneRemove_result:
  assumes "zoneRemove obj freeLst s = Some s2" and "mZoneListHandle (objAt s obj) \<noteq> 0"
  shows "mNumCurrZones (objAt s2 obj) = 0 \<and> mZoneListHandle (objAt s2 obj) = 0 \<and>
         \<not> mZoneRefDirty (objAt s2 obj) \<and>
         getValues (mObjectZoneLists s2) (mZoneListHandle (objAt s obj)) = None"
proof -
  from assms obtain zones s1 where
    loop: "zoneRemoveLoop zones obj s = Some s1"
    and s2: "s2 = updObj obj (\<lambda>it. it\<lparr>mZoneListHandle := 0, mZoneRefDirty := False, mNumCurrZones := 0\<rparr>)
                   (s1\<lparr>mObjectZoneLists := freeList (mZoneListHandle (objAt s1 obj)) (mObjectZoneLists s1)\<rparr>)"
    by (auto simp: zoneRemove_def Let_def split: Option.bind_splits)
  from zoneRemoveLoop_frame [OF loop] obtain hl where s1: "s1 = s\<lparr>heapLists := hl\<rparr>" by blast
  have "map_of (filter (\<lambda>e. fst e \<noteq> h) tbl) h = None" for h :: U32 and tbl :: ObjectZoneLists
    by (induction tbl) auto
  then show ?thesis
    by (simp add: s2 s1 updObj_def objAt_def getValues_def freeList_def)
qed

text \<open>
  Claim C9. After \<^verbatim>\<open>_zoneInsert\<close> the object holds a table handle other than 0 and
  occupies at least one zone; a \<^verbatim>\<open>_zoneRemove\<close> right after it sets the occupancy
  count and the handle back to 0 and the table no longer has an entry for the handle.
  \<^verbatim>\<open>_zoneRemove\<close> on an object whose handle is 0 returns the manager unchanged.
\<close>

theorem zoneInsert_zoneRemove_round_trip:
  "(\<forall>s1 s2. zoneInsert env object queryListInitialized s = Some s1 \<and> 0 < MaxObjectZones env \<and>
             zoneRemove object freeLst s1 = Some s2 \<longrightarrow>
      mZoneListHandle (objAt s1 object) \<noteq> 0 \<and> 0 < mNumCurrZones (objAt s1 object) \<and>
      mNumCurrZones (objAt s2 object) = 0 \<and> mZoneListHandle (objAt s2 object) = 0 \<and>
      getValues (mObjectZoneLists s2) (mZoneListHandle (objAt s1 object)) = None) \<and>
   (mZoneListHandle (objAt s object) = 0 \<longrightarrow> zoneRemove object freeLst s = Some s)"
proof (intro conjI allI impI)
  fix s1 s2
  assume a: "zoneInsert env object queryListInitialized s = Some s1 \<and> 0 < MaxObjectZones env \<and>
             zoneRemove object freeLst s1 = Some s2"
  then have ne: "zoneInsertFinal env s object queryListInitialized \<noteq> []"
    by (intro zoneInsertFinal_nonempty) simp_all
  from a zoneInsert_membership(1) [OF _ ne] have
    h: "mZoneListHandle (objAt s1 object) \<noteq> 0"
    and c: "mNumCurrZones (objAt s1 object) = length (zoneInsertFinal env s object queryListInitialized)"
    by simp_all
  show "mZoneListHandle (objAt s1 object) \<noteq> 0" by (rule h)
  from c ne show "0 < mNumCurrZones (objAt s1 object)" by simp
  from a have r: "zoneRemove object freeLst s1 = Some s2" by simp
  from zoneRemove_result [OF r h]
  show "mNumCurrZones (objAt s2 object) = 0" "mZoneListHandle (objAt s2 object) = 0"
    "getValues (mObjectZoneLists s2) (mZoneListHandle (objAt s1 object)) = None"
    by simp_all
next
  assume "mZoneListHandle (objAt s object) = 0"
  then show "zoneRemove object freeLst s = Some s" by (simp add: zoneRemove_def)
qed

theorem zoneInsert_zoneRemove_round_trip_witness:
  "zoneInsert exEnv 10 False exScene = Some exInserted \<and> 0 < MaxObjectZones exEnv \<and>
   zoneRemove 10 True exInserted = Some exRemoved \<and>
   mZoneListHandle (objAt exInserted 10) = 1 \<and> mNumCurrZones (objAt exInserted 10) = 3 \<and>
   mNumCurrZones (objAt exRemoved 10) = 0 \<and> mZoneListHandle (objAt exRemoved 10) = 0 \<and>
   getValues (mObjectZoneLists exRemoved) 1 = None \<and>
   mZoneListHandle (objAt exScene 10) = 0 \<and> zoneRemove 10 True exScene = Some exScene"
proof -
  have m: "0 < MaxObjectZones exEnv" by (simp add: exEnv_def)
  have "zoneRemove 10 True exInserted \<noteq> None"
    by (simp add: exInserted_def insert_defs model_defs scene_defs eval_simps cong: eval_congs)
  then have r: "zoneRemove 10 True exInserted = Some exRemoved" by (auto simp: exRemoved_def)
  have h: "mZoneListHandle (objAt exInserted 10) = 1" "mNumCurrZones (objAt exInserted 10) = 3"
    by (simp_all add: exInserted_def insert_defs model_defs scene_defs eval_simps cong: eval_congs)
  have z: "mZoneListHandle (objAt exScene 10) = 0"
    by (simp add: model_defs scene_defs eval_simps cong: eval_congs)
  note t = zoneInsert_zoneRemove_round_trip [of exEnv 10 False exScene True]
  from t exInserted_run m r h have "mNumCurrZones (objAt exRemoved 10) = 0"
    "mZoneListHandle (objAt exRemoved 10) = 0" "getValues (mObjectZoneLists exRemoved) 1 = None"
    by auto
  moreover from t z have "zoneRemove 10 True exScene = Some exScene" by simp
  ultimately show ?thesis using exInserted_run m r h z by simp
qed

section \<open>The update pass drains the dirty state\<close>

lemma drainDirtyZoneSpaces_result:
  "drainDirtyZoneSpaces env s = Some s' \<Longrightarrow>
     mDirtyZoneSpaces s' = [] \<and> mDirtyObjects s' = mDirtyObjects s"
proof (induction env s rule: drainDirtyZoneSpaces.induct)
  case (1 env s)
  show ?case
  proof (cases "mDirtyZoneSpaces s = []")
    case True
    with "1.prems" show ?thesis by (simp add: drainDirtyZoneSpaces.simps)
  next
    case False
    with "1.prems" obtain s1 where
      st: "dirtyZoneSpaceStep env s = Some s1" and rest: "drainDirtyZoneSpaces env s1 = Some s'"
      by (subst (asm) drainDirtyZoneSpaces.simps) (auto split: Option.bind_splits)
    from "1.IH" [OF False st rest] dirtyZoneSpaceStep_queue [OF st] show ?thesis by simp
  qed
qed

lemma drainDirtyObjects_result:
  "drainDirtyObjects env s = Some s' \<Longrightarrow>
     mDirtyObjects s' = [] \<and> mDirtyZoneSpaces s' = mDirtyZoneSpaces s \<and> mDirtyArea s' = mDirtyArea s"
proof (induction env s rule: drainDirtyObjects.induct)
  case (1 env s)
  show ?case
  proof (cases "mDirtyObjects s = []")
    case True
    with "1.prems" show ?thesis by (simp add: drainDirtyObjects.simps)
  next
    case False
    with "1.prems" obtain s1 where
      st: "dirtyObjectStep env s = Some s1" and rest: "drainDirtyObjects env s1 = Some s'"
      by (subst (asm) drainDirtyObjects.simps) (auto split: Option.bind_splits)
    from "1.IH" [OF False st rest] dirtyObjectStep_queue [OF st] show ?thesis by simp
  qed
qed

lemma updateZoningStatePasses_result:
  assumes "updateZoningStatePasses env s = Some s3"
  shows "mDirtyObjects s3 = [] \<and> mDirtyZoneSpaces s3 = [] \<and> mDirtyArea s3 = Box3F_Invalid env"
proof -
  from assms obtain s1 s2 where
    zs: "drainDirtyZoneSpaces env s = Some s1"
    and area: "(if mDirtyArea s1 \<noteq> Box3F_Invalid env
            then do {
              s' \<leftarrow> rezoneObjects env (mDirtyArea s1) s1;
              Some (s'\<lparr>mDirtyArea := Box3F_Invalid env\<rparr>)
            }
            else Some s1) = Some s2"
    and objs: "drainDirtyObjects env s2 = Some s3"
    by (auto simp: updateZoningStatePasses_def bind_eq_Some_conv)
  from drainDirtyZoneSpaces_result [OF zs] have z1: "mDirtyZoneSpaces s1 = []" by simp
  have s2: "mDirtyZoneSpaces s2 = [] \<and> mDirtyArea s2 = Box3F_Invalid env"
  proof (cases "mDirtyArea s1 \<noteq> Box3F_Invalid env")
    case True
    with area obtain s' where r: "rezoneObjectsLoop env (findObjectList env (mDirtyArea s1) 4294967295) s1 = Some s'"
      and e: "s2 = s'\<lparr>mDirtyArea := Box3F_Invalid env\<rparr>"
      by (auto simp: rezoneObjects_def bind_eq_Some_conv)
    from dirtyState_rezoneObjectsLoop [OF r] z1 e show ?thesis by (simp add: dirtyState_def)
  next
    case False
    with area z1 show ?thesis by auto
  qed
  from drainDirtyObjects_result [OF objs] s2 show ?thesis by simp
qed

text \<open>
  Claim C8. Every call of \<^verbatim>\<open>updateZoningState\<close> that returns leaves the dirty list
  of zone spaces empty, the dirty list of objects empty and the dirty area invalid,
  and a call in that state changes nothing. The two closing assertions of the
  function cannot fire: the passes before them already leave both lists empty. Both
  loops terminate, as their termination proofs above show.
\<close>

theorem updateZoningState_drains_dirty_state:
  "(\<forall>s'. updateZoningState env s = Some s' \<longrightarrow>
      mDirtyObjects s' = [] \<and> mDirtyZoneSpaces s' = [] \<and> mDirtyArea s' = Box3F_Invalid env \<and>
      updateZoningState env s' = Some s') \<and>
   (\<forall>s3. updateZoningStatePasses env s = Some s3 \<longrightarrow>
      mDirtyObjects s3 = [] \<and> mDirtyZoneSpaces s3 = [] \<and> mDirtyArea s3 = Box3F_Invalid env)"
proof (intro conjI allI impI)
  fix s' assume u: "updateZoningState env s = Some s'"
  have r: "mDirtyObjects s' = [] \<and> mDirtyZoneSpaces s' = [] \<and> mDirtyArea s' = Box3F_Invalid env"
  proof (cases "mDirtyObjects s = [] \<and> mDirtyZoneSpaces s = [] \<and> mDirtyArea s = Box3F_Invalid env")
    case True
    with u show ?thesis by (auto simp: updateZoningState_def)
  next
    case False
    with u have "updateZoningStatePasses env s = Some s'"
      by (auto simp: updateZoningState_def AssertFatal_def bind_eq_Some_conv split: if_splits)
    from updateZoningStatePasses_result [OF this] show ?thesis .
  qed
  from r show "mDirtyObjects s' = []" "mDirtyZoneSpaces s' = []" "mDirtyArea s' = Box3F_Invalid env"
    by simp_all
  from r show "updateZoningState env s' = Some s'" by (simp add: updateZoningState_def)
next
  fix s3 assume "updateZoningStatePasses env s = Some s3"
  from updateZoningStatePasses_result [OF this]
  show "mDirtyObjects s3 = []" "mDirtyZoneSpaces s3 = []" "mDirtyArea s3 = Box3F_Invalid env"
    by simp_all
qed

lemmas update_defs = updateZoningState_def updateZoningStatePasses_def dirtyZoneSpaceStep_def
  dirtyObjectStep_def drainDirtyZoneSpaces.simps drainDirtyObjects.simps rezoneObjects_def
  rezoneObject_def registerObject_def

lemma exDirty_vals: "mDirtyObjects exDirty = [10]" "mDirtyZoneSpaces exDirty = [1, 2]"
  "mDirtyArea exDirty = Box3F_Invalid exEnv"
  by (simp_all add: exDirty_def update_defs model_defs scene_defs eval_simps cong: eval_congs)

lemma exUpdated_run: "updateZoningState exEnv exDirty = Some exUpdated"
proof -
  have "updateZoningState exEnv exDirty \<noteq> None"
    by (simp add: exDirty_def update_defs insert_defs model_defs scene_defs eval_simps cong: eval_congs)
  then show ?thesis by (auto simp: exUpdated_def)
qed

theorem updateZoningState_drains_dirty_state_witness:
  "mDirtyObjects exDirty = [10] \<and> mDirtyZoneSpaces exDirty = [1, 2] \<and>
   updateZoningState exEnv exDirty = Some exUpdated \<and>
   mDirtyObjects exUpdated = [] \<and> mDirtyZoneSpaces exUpdated = [] \<and>
   mDirtyArea exUpdated = Box3F_Invalid exEnv \<and>
   updateZoningState exEnv exUpdated = Some exUpdated"
  using updateZoningState_drains_dirty_state [of exEnv exDirty] exUpdated_run exDirty_vals
  by simp

section \<open>The compaction and the membership table\<close>

lemmas bug_defs = exBeforeCompaction_def exAfterCompaction_def exEnvC_def verifyStateZoneList_def
  zoneObjects_def containsBinItem_def replaceListBin_def zoneRange_def

text \<open>
  Claim C1 says that the compaction rewrites, for every object of a relocated list,
  the old zone ID in the object's table entry to the new one. The source takes the
  objects from \<^verbatim>\<open>mZoneLists[ newZoneId ]\<close>, the list that was at the new index before
  the compaction, not from the relocated list. Here zone space 3 moves from zone 3 to
  zone 1: before the compaction the object 10 is in the list of zone 3 and its entry
  is \<open>[3]\<close>; after it the object is in the list of zone 1 (the relocated list), the
  range of zone space 3 is \<open>[1, 2)\<close>, the allocated count equals the active count, and
  the entry of the object is still \<open>[3]\<close>, so that the check of \<^verbatim>\<open>verifyState\<close> on zone 1
  fails.
\<close>

theorem compaction_leaves_stale_zone_id:
  "map_option (\<lambda>s. (mNumActiveZones s, mNumTotalAllocatedZones s, zoneRange s 3, zoneObjects s 3,
                      objectZones s 10, verifyStateZoneList s 3)) exBeforeCompaction
     = Some (2, 4, (3, 1), Some [10], Some [3], True) \<and>
   map_option (\<lambda>s. (mNumActiveZones s, mNumTotalAllocatedZones s, zoneRange s 3, zoneObjects s 1,
                      objectZones s 10, verifyStateZoneList s 1)) exAfterCompaction
     = Some (3, 3, (1, 1), Some [10], Some [3], False)"
  by (simp add: bug_defs update_defs insert_defs model_defs scene_defs eval_simps cong: eval_congs)

end
